theory Spec2Isabelle
  imports Main "HOL-Library.AList"
begin

section \<open>Name validation\<close>

text \<open>
  The bot validates a display name with \<^verbatim>\<open>bool(re.match(pattern, name))\<close>, where the
  pattern depends on the process-wide mode:
  \<^verbatim>\<open>
  pre_matric:   ^[A-Z][a-z]+(?:\s+[A-Z][a-z]+)*\s+[A-Z]+\s+\d{12}$
  post_matric:  ^(?:[A-Z][a-z]+(?:\s+[A-Z][a-z]+)*\s+)?[A-Z]{2,4}/\d{2}/\d{4}$
  \<close>
  Neither pattern has a back-reference, a look-around or a possessive operator, so a match
  object exists exactly when the name belongs to the regular language of the pattern.
  The patterns are embedded as values of a small regular-expression datatype and matched
  by derivatives.

  A display name is a \<open>string\<close>; each \<open>char\<close> stands for the code point of the same
  number, so the model covers names whose code points are below 256. On that range
  \<^verbatim>\<open>\d\<close> is \<open>0\<close>..\<open>9\<close> and \<^verbatim>\<open>\s\<close> is the set Python's \<^verbatim>\<open>re\<close> uses for
  \<^verbatim>\<open>str\<close> patterns: code points 9..13, 28..32, 133 and 160.
\<close>

datatype cclass =
    Upper           \<comment> \<open>\<^verbatim>\<open>[A-Z]\<close>\<close>
  | Lower           \<comment> \<open>\<^verbatim>\<open>[a-z]\<close>\<close>
  | Digit           \<comment> \<open>\<^verbatim>\<open>\d\<close>\<close>
  | Space           \<comment> \<open>\<^verbatim>\<open>\s\<close>\<close>
  | Lit char        \<comment> \<open>a literal character\<close>

definition is_upper :: "char \<Rightarrow> bool" where
  "is_upper c = (65 \<le> (of_char c :: nat) \<and> (of_char c :: nat) \<le> 90)"

definition is_lower :: "char \<Rightarrow> bool" where
  "is_lower c = (97 \<le> (of_char c :: nat) \<and> (of_char c :: nat) \<le> 122)"

definition is_digit :: "char \<Rightarrow> bool" where
  "is_digit c = (48 \<le> (of_char c :: nat) \<and> (of_char c :: nat) \<le> 57)"

definition is_space :: "char \<Rightarrow> bool" where
  "is_space c = (let n = (of_char c :: nat) in
     (9 \<le> n \<and> n \<le> 13) \<or> (28 \<le> n \<and> n \<le> 32) \<or> n = 133 \<or> n = 160)"

fun in_class :: "cclass \<Rightarrow> char \<Rightarrow> bool" where
  "in_class Upper c = is_upper c"
| "in_class Lower c = is_lower c"
| "in_class Digit c = is_digit c"
| "in_class Space c = is_space c"
| "in_class (Lit d) c = (c = d)"

datatype regex =
    Empty                 \<comment> \<open>matches nothing\<close>
  | Eps                   \<comment> \<open>matches the empty string\<close>
  | Atom cclass
  | Seq regex regex
  | Alt regex regex
  | Star regex

definition Plus :: "regex \<Rightarrow> regex" where
  \<comment> \<open>\<^verbatim>\<open>r+\<close>\<close>
  "Plus r = Seq r (Star r)"

definition Opt :: "regex \<Rightarrow> regex" where
  \<comment> \<open>\<^verbatim>\<open>r?\<close>\<close>
  "Opt r = Alt r Eps"

fun Rep :: "nat \<Rightarrow> regex \<Rightarrow> regex" where
  \<comment> \<open>\<^verbatim>\<open>r{n}\<close>\<close>
  "Rep 0 r = Eps"
| "Rep (Suc n) r = Seq r (Rep n r)"

definition newline :: char where
  "newline = char_of (10 :: nat)"

definition Dollar :: regex where
  \<comment> \<open>\<^verbatim>\<open>$\<close> as the last item of a pattern given to \<^verbatim>\<open>re.match\<close> without
      \<^verbatim>\<open>re.MULTILINE\<close>: the match ends at the end of the string or just before a
      newline that is the last character of the string.\<close>
  "Dollar = Opt (Atom (Lit newline))"

fun nullable :: "regex \<Rightarrow> bool" where
  "nullable Empty = False"
| "nullable Eps = True"
| "nullable (Atom a) = False"
| "nullable (Seq r s) = (nullable r \<and> nullable s)"
| "nullable (Alt r s) = (nullable r \<or> nullable s)"
| "nullable (Star r) = True"

definition seq :: "regex \<Rightarrow> regex \<Rightarrow> regex" where
  \<comment> \<open>sequence, dropping a part that can no longer match\<close>
  "seq r s = (if r = Empty \<or> s = Empty then Empty else if r = Eps then s else Seq r s)"

definition alt :: "regex \<Rightarrow> regex \<Rightarrow> regex" where
  "alt r s = (if r = Empty then s else if s = Empty then r else Alt r s)"

fun deriv :: "char \<Rightarrow> regex \<Rightarrow> regex" where
  "deriv c Empty = Empty"
| "deriv c Eps = Empty"
| "deriv c (Atom a) = (if in_class a c then Eps else Empty)"
| "deriv c (Seq r s) =
     (if nullable r then alt (seq (deriv c r) s) (deriv c s) else seq (deriv c r) s)"
| "deriv c (Alt r s) = alt (deriv c r) (deriv c s)"
| "deriv c (Star r) = seq (deriv c r) (Star r)"

fun matches :: "regex \<Rightarrow> string \<Rightarrow> bool" where
  "matches r [] = nullable r"
| "matches r (c # cs) = matches (deriv c r) cs"

definition capitalized_word :: regex where
  \<comment> \<open>\<^verbatim>\<open>[A-Z][a-z]+\<close>\<close>
  "capitalized_word = Seq (Atom Upper) (Plus (Atom Lower))"

definition capitalized_words :: regex where
  \<comment> \<open>\<^verbatim>\<open>[A-Z][a-z]+(?:\s+[A-Z][a-z]+)*\<close>\<close>
  "capitalized_words =
     Seq capitalized_word (Star (Seq (Plus (Atom Space)) capitalized_word))"

definition PRE_MATRIC_PATTERN :: regex where
  "PRE_MATRIC_PATTERN =
     Seq capitalized_words
    (Seq (Plus (Atom Space))
    (Seq (Plus (Atom Upper))
    (Seq (Plus (Atom Space))
    (Seq (Rep 12 (Atom Digit)) Dollar))))"

definition POST_MATRIC_PATTERN :: regex where
  "POST_MATRIC_PATTERN =
     Seq (Opt (Seq capitalized_words (Plus (Atom Space))))
    (Seq (Seq (Rep 2 (Atom Upper)) (Seq (Opt (Atom Upper)) (Opt (Atom Upper))))
    (Seq (Atom (Lit (CHR ''/'')))
    (Seq (Rep 2 (Atom Digit))
    (Seq (Atom (Lit (CHR ''/'')))
    (Seq (Rep 4 (Atom Digit)) Dollar)))))"

datatype mode = Pre_matric | Post_matric

fun validate_name :: "mode \<Rightarrow> string \<Rightarrow> bool" where
  "validate_name Pre_matric name = matches PRE_MATRIC_PATTERN name"
| "validate_name Post_matric name = matches POST_MATRIC_PATTERN name"


section \<open>Configuration\<close>

type_synonym user_id = int
type_synonym msg_id = int

text \<open>
  A \<^verbatim>\<open>datetime\<close> is a number of microseconds (the resolution of Python's
  \<^verbatim>\<open>datetime\<close>), a \<^verbatim>\<open>timedelta\<close> a difference of two of them. Each handler reads the
  clock once, as its parameter \<open>now\<close>.
\<close>

type_synonym datetime = int

definition seconds :: "int \<Rightarrow> int" where
  "seconds n = n * 1000000"

definition LECTURER_IDS :: "user_id list" where
  "LECTURER_IDS = [7394280481]"


definition REJOIN_ATTEMPTS_LIMIT :: int where
  "REJOIN_ATTEMPTS_LIMIT = 3"

definition REJOIN_COOLDOWN :: int where
  "REJOIN_COOLDOWN = 30 * 60"


definition REMOVAL_DELETE_TIME :: int where
  "REMOVAL_DELETE_TIME = 600"


definition CORRECTION_DELETE_TIME :: int where
  "CORRECTION_DELETE_TIME = 300"

definition INVITE_LINK_DURATION :: int where
  "INVITE_LINK_DURATION = 2 * 60 * 60"

section \<open>The stores\<close>

text \<open>
  A Python \<^verbatim>\<open>dict\<close> is an association list with one entry per key, in insertion
  order: \<^verbatim>\<open>d[k]\<close> is \<open>map_of d k\<close>, \<^verbatim>\<open>d[k] = v\<close> is \<open>AList.update k v d\<close> (an
  existing key keeps its place, a new one goes to the end), \<^verbatim>\<open>del d[k]\<close> is
  \<open>AList.delete k d\<close> and \<^verbatim>\<open>k in d\<close> is \<open>has_key d k\<close>.
\<close>

type_synonym ('k, 'v) dict = "('k \<times> 'v) list"

definition has_key :: "('k, 'v) dict \<Rightarrow> 'k \<Rightarrow> bool" where
  "has_key d k = (map_of d k \<noteq> None)"

record pending_info =
  warning_msg_id :: msg_id
  username :: "string option"
  display_name :: string
  warning_time :: datetime
  timer_end :: datetime

record attempt_info =
  attempts :: int
  last_attempt :: "datetime option"

record approval_info =
  approved_display_name :: string     \<comment> \<open>key \<^verbatim>\<open>'display_name'\<close> of \<^verbatim>\<open>approved_rejoins\<close>\<close>
  approval_time :: datetime

record link_info =
  link :: string
  created_at :: datetime
  used :: bool
  expires_at :: datetime

datatype chat = Group | Private user_id

datatype notice =
    Admin_hello
  | Cooldown_active int
  | Maximum_attempts_reached
  | Error_creating_link_retry
  | Error_creating_link_manual
  | Auto_approved string string int
  | Bot_auto_approved_rejoin user_id string
  | Name_mismatch string int int
  | Welcome_back string
  | Security_violation string string
  | Welcome string
  | Strict_warning string
  | Removed_name_violation string
  | Name_corrected string

text \<open>The calls made to the chat platform, and the jobs given to the job queue.\<close>

datatype call =
    Get_chat_member user_id
  | Ban_chat_member user_id
  | Send_message chat notice
  | Delete_message msg_id
  | Create_chat_invite_link user_id
  | Get_me

datatype job =
    Delete_specific_message msg_id      \<comment> \<open>named \<^verbatim>\<open>delete_msg_{message_id}\<close>\<close>
  | Remove_user_if_not_corrected user_id  \<comment> \<open>named \<^verbatim>\<open>removal_{user_id}\<close>\<close>

record bot_state =
  pending_corrections :: "(user_id, pending_info) dict"
  warning_messages :: "msg_id list"
  rejoin_attempts :: "(user_id, attempt_info) dict"
  approved_rejoins :: "(user_id, approval_info) dict"
  member_name_tracker :: "(user_id, string) dict"
  bot_messages_to_cleanup :: "msg_id list"
  group_admins :: "user_id set"
  active_invite_links :: "(user_id, link_info) dict"
  MODE :: mode
  job_queue :: "(job \<times> int) list"   \<comment> \<open>the jobs of \<^verbatim>\<open>context.job_queue\<close>, each with its delay\<close>
  calls :: "call list"               \<comment> \<open>every platform call made so far, oldest first\<close>

section \<open>The chat platform\<close>

text \<open>
  The platform is outside the program. Its answers are parameters: each answer may depend
  on the number of calls made before it and on the call's arguments, so that the same call
  can succeed once and fail later. \<open>None\<close> (or \<open>False\<close>) is a call that raises.
\<close>

datatype member_status = Creator | Administrator | Member | Restricted | Left | Kicked

record tg_user =
  id_of :: user_id
  full_name :: string
  tg_username :: "string option"

record chat_member =
  status :: member_status
  user :: tg_user

record platform =
  on_get_chat_member :: "nat \<Rightarrow> user_id \<Rightarrow> chat_member option"
  on_ban_chat_member :: "nat \<Rightarrow> user_id \<Rightarrow> bool"
  on_send_message :: "nat \<Rightarrow> chat \<Rightarrow> notice \<Rightarrow> msg_id option"
  on_delete_message :: "nat \<Rightarrow> msg_id \<Rightarrow> bool"
  on_create_chat_invite_link :: "nat \<Rightarrow> user_id \<Rightarrow> string option"
  on_get_me :: "nat \<Rightarrow> bool"
  bot_id :: user_id

definition logged :: "call \<Rightarrow> bot_state \<Rightarrow> bot_state" where
  "logged c s = s\<lparr>calls := calls s @ [c]\<rparr>"

definition get_chat_member :: "platform \<Rightarrow> user_id \<Rightarrow> bot_state \<Rightarrow> chat_member option \<times> bot_state" where
  "get_chat_member P uid s =
     (on_get_chat_member P (length (calls s)) uid, logged (Get_chat_member uid) s)"

definition ban_chat_member :: "platform \<Rightarrow> user_id \<Rightarrow> bot_state \<Rightarrow> bool \<times> bot_state" where
  "ban_chat_member P uid s =
     (on_ban_chat_member P (length (calls s)) uid, logged (Ban_chat_member uid) s)"

definition send_message :: "platform \<Rightarrow> chat \<Rightarrow> notice \<Rightarrow> bot_state \<Rightarrow> msg_id option \<times> bot_state" where
  "send_message P c n s =
     (on_send_message P (length (calls s)) c n, logged (Send_message c n) s)"

definition reply_text :: "platform \<Rightarrow> chat \<Rightarrow> notice \<Rightarrow> bot_state \<Rightarrow> msg_id option \<times> bot_state" where
  \<comment> \<open>\<^verbatim>\<open>update.message.reply_text\<close>: a message to the chat the update came from\<close>
  "reply_text P c n s = send_message P c n s"

definition delete_message :: "platform \<Rightarrow> msg_id \<Rightarrow> bot_state \<Rightarrow> bool \<times> bot_state" where
  "delete_message P m s =
     (on_delete_message P (length (calls s)) m, logged (Delete_message m) s)"

definition create_chat_invite_link :: "platform \<Rightarrow> user_id \<Rightarrow> bot_state \<Rightarrow> string option \<times> bot_state" where
  "create_chat_invite_link P uid s =
     (on_create_chat_invite_link P (length (calls s)) uid, logged (Create_chat_invite_link uid) s)"

definition get_me :: "platform \<Rightarrow> bot_state \<Rightarrow> bool \<times> bot_state" where
  "get_me P s = (on_get_me P (length (calls s)), logged Get_me s)"

datatype exn = TelegramError | AttributeError | KeyError

datatype 'a result = Return 'a | Raise exn

section \<open>Exemption\<close>

definition is_lecturer_or_admin :: "platform \<Rightarrow> user_id \<Rightarrow> bot_state \<Rightarrow> bool \<times> bot_state" where
  "is_lecturer_or_admin P uid s =
     (if uid \<in> set LECTURER_IDS then (True, s)
      else if uid \<in> group_admins s then (True, s)
      else case get_chat_member P uid s of
             (Some m, s') \<Rightarrow>
               if status m = Creator \<or> status m = Administrator
               then (True, s'\<lparr>group_admins := insert uid (group_admins s')\<rparr>)
               else (False, s')
           | (None, s') \<Rightarrow> (False, s'))"

section \<open>Admission links\<close>

definition create_invite_link :: "platform \<Rightarrow> datetime \<Rightarrow> user_id \<Rightarrow> bot_state \<Rightarrow> string option \<times> bot_state" where
  "create_invite_link P now uid s =
     (let s1 = (case map_of (active_invite_links s) uid of
                  Some old_link_data \<Rightarrow>
                    if now - created_at old_link_data > seconds (2 * 60 * 60)
                    then s\<lparr>active_invite_links := AList.delete uid (active_invite_links s)\<rparr>
                    else s
                | None \<Rightarrow> s)
      in case create_chat_invite_link P uid s1 of
           (Some invite_link, s2) \<Rightarrow>
             (Some invite_link,
              s2\<lparr>active_invite_links := AList.update uid
                    \<lparr>link = invite_link, created_at = now, used = False,
                     expires_at = now + seconds INVITE_LINK_DURATION\<rparr>
                    (active_invite_links s2)\<rparr>)
         | (None, s2) \<Rightarrow> (None, s2))"

definition mark_invite_link_used :: "user_id \<Rightarrow> bot_state \<Rightarrow> bot_state" where
  "mark_invite_link_used uid s =
     (case map_of (active_invite_links s) uid of
        Some link_data \<Rightarrow>
          s\<lparr>active_invite_links := AList.update uid (link_data\<lparr>used := True\<rparr>) (active_invite_links s)\<rparr>
      | None \<Rightarrow> s)"

definition cleanup_expired_links :: "datetime \<Rightarrow> bot_state \<Rightarrow> bot_state" where
  "cleanup_expired_links current_time s =
     (let expired_links =
            map fst (filter (\<lambda>(uid, link_data). current_time > expires_at link_data)
                            (active_invite_links s))
      in s\<lparr>active_invite_links :=
              fold (\<lambda>uid links. AList.delete uid links) expired_links (active_invite_links s)\<rparr>)"

section \<open>Message management\<close>

definition run_once :: "job \<Rightarrow> int \<Rightarrow> bot_state \<Rightarrow> bot_state" where
  "run_once j delay s = s\<lparr>job_queue := job_queue s @ [(j, delay)]\<rparr>"

definition schedule_message_deletion :: "msg_id \<Rightarrow> int \<Rightarrow> bot_state \<Rightarrow> bot_state" where
  "schedule_message_deletion message_id delay s =
     run_once (Delete_specific_message message_id) delay
       (s\<lparr>bot_messages_to_cleanup := bot_messages_to_cleanup s @ [message_id]\<rparr>)"

definition cancel_removal_jobs :: "user_id \<Rightarrow> bot_state \<Rightarrow> bot_state" where
  \<comment> \<open>\<^verbatim>\<open>for job in get_jobs_by_name(f"removal_{user_id}"): job.schedule_removal()\<close>\<close>
  "cancel_removal_jobs uid s =
     s\<lparr>job_queue := filter (\<lambda>(j, delay). j \<noteq> Remove_user_if_not_corrected uid) (job_queue s)\<rparr>"

definition delete_warning :: "platform \<Rightarrow> msg_id \<Rightarrow> bot_state \<Rightarrow> bot_state" where
  \<comment> \<open>the block \<^verbatim>\<open>try: await delete_message(..., warning_msg_id); if warning_msg_id in
      warning_messages: warning_messages.remove(warning_msg_id); except: pass\<close>\<close>
  "delete_warning P m s =
     (case delete_message P m s of
        (True, s1) \<Rightarrow> s1\<lparr>warning_messages := remove1 m (warning_messages s1)\<rparr>
      | (False, s1) \<Rightarrow> s1)"


section \<open>Name change detection\<close>

text \<open>
  \<^verbatim>\<open>detect_name_change\<close> returns \<^verbatim>\<open>True\<close> when the name changed and is invalid (or
  when a new user's name is invalid) and \<^verbatim>\<open>False\<close> otherwise. In the branch of a known
  user whose name is unchanged, invalid and not yet warned, the source calls
  \<^verbatim>\<open>warn_and_schedule_removal(context, GROUP_ID, context._bot.get_chat(GROUP_ID))\<close>.
  The callback context has no attribute \<^verbatim>\<open>_bot\<close>, so evaluating the argument raises
  \<^verbatim>\<open>AttributeError\<close> before anything is sent or stored. (Were the attribute there,
  the call of \<^verbatim>\<open>get_chat\<close>, which is not awaited, would hand a coroutine to
  \<^verbatim>\<open>warn_and_schedule_removal\<close>, whose first statement reads \<^verbatim>\<open>user.id\<close> and raises
  the same error.)
\<close>

definition resolve_pending_via_change :: "platform \<Rightarrow> user_id \<Rightarrow> string \<Rightarrow> pending_info \<Rightarrow> bot_state \<Rightarrow> unit result \<times> bot_state" where
  \<comment> \<open>the body of \<^verbatim>\<open>if user_id in pending_corrections:\<close> in the branch of a name
      changed to a valid one\<close>
  "resolve_pending_via_change P uid current_name pending s =
     (let s1 = delete_warning P (warning_msg_id pending) s;
          s2 = s1\<lparr>pending_corrections := AList.delete uid (pending_corrections s1)\<rparr>;
          s3 = cancel_removal_jobs uid s2
      in case send_message P Group (Name_corrected current_name) s3 of
           (Some correction_msg, s4) \<Rightarrow>
             (Return (), schedule_message_deletion correction_msg CORRECTION_DELETE_TIME s4)
         | (None, s4) \<Rightarrow> (Raise TelegramError, s4))"

definition detect_name_change :: "platform \<Rightarrow> user_id \<Rightarrow> string \<Rightarrow> bot_state \<Rightarrow> bool result \<times> bot_state" where
  "detect_name_change P uid current_name s0 =
     (case is_lecturer_or_admin P uid s0 of
        (True, s) \<Rightarrow> (Return False, s)
      | (False, s) \<Rightarrow>
          (case map_of (member_name_tracker s) uid of
             Some previous_name \<Rightarrow>
               if previous_name = current_name then
                 (if \<not> validate_name (MODE s) current_name \<and> \<not> has_key (pending_corrections s) uid
                  then (Raise AttributeError, s)
                  else (Return False, s))
               else
                 let s1 = s\<lparr>member_name_tracker := AList.update uid current_name (member_name_tracker s)\<rparr>
                 in if validate_name (MODE s1) current_name then
                      (case map_of (pending_corrections s1) uid of
                         Some pending \<Rightarrow>
                           (case resolve_pending_via_change P uid current_name pending s1 of
                              (Return u, s2) \<Rightarrow> (Return False, s2)
                            | (Raise e, s2) \<Rightarrow> (Raise e, s2))
                       | None \<Rightarrow> (Return False, s1))
                    else (Return True, s1)
           | None \<Rightarrow>
               (Return (\<not> validate_name (MODE s) current_name),
                s\<lparr>member_name_tracker := AList.update uid current_name (member_name_tracker s)\<rparr>)))"

section \<open>Deadline resolution\<close>

definition drop_pending :: "user_id \<Rightarrow> bot_state \<Rightarrow> bot_state" where
  \<comment> \<open>\<^verbatim>\<open>if user_id in pending_corrections: del pending_corrections[user_id]\<close>\<close>
  "drop_pending uid s = s\<lparr>pending_corrections := AList.delete uid (pending_corrections s)\<rparr>"

definition remove_for_violation :: "platform \<Rightarrow> user_id \<Rightarrow> string \<Rightarrow> bot_state \<Rightarrow> bot_state" where
  \<comment> \<open>the branch \<^verbatim>\<open>if not validate_name(current_name):\<close> of
      \<^verbatim>\<open>remove_user_if_not_corrected\<close>; a call that raises leads to the handler's
      \<^verbatim>\<open>except\<close> block, which drops the pending record\<close>
  "remove_for_violation P uid current_name s =
     (case ban_chat_member P uid s of
        (False, s1) \<Rightarrow> drop_pending uid s1
      | (True, s1) \<Rightarrow>
          (case get_me P s1 of
             (False, s2) \<Rightarrow> drop_pending uid s2
           | (True, s2) \<Rightarrow>
               (case send_message P Group (Removed_name_violation current_name) s2 of
                  (None, s3) \<Rightarrow> drop_pending uid s3
                | (Some removal_msg, s3) \<Rightarrow>
                    let s4 = schedule_message_deletion removal_msg REMOVAL_DELETE_TIME s3;
                        s5 = s4\<lparr>member_name_tracker := AList.delete uid (member_name_tracker s4)\<rparr>
                    in (case map_of (pending_corrections s5) uid of
                          Some pending \<Rightarrow>
                            drop_pending uid (delete_warning P (warning_msg_id pending) s5)
                        | None \<Rightarrow> s5))))"

definition acknowledge_correction :: "platform \<Rightarrow> user_id \<Rightarrow> string \<Rightarrow> bot_state \<Rightarrow> bot_state" where
  \<comment> \<open>the \<^verbatim>\<open>else\<close> branch: the name was corrected\<close>
  "acknowledge_correction P uid current_name s =
     (if has_key (pending_corrections s) uid then
        (case send_message P Group (Name_corrected current_name) (drop_pending uid s) of
           (Some correction_msg, s1) \<Rightarrow>
             schedule_message_deletion correction_msg CORRECTION_DELETE_TIME s1
         | (None, s1) \<Rightarrow> drop_pending uid s1)
      else s)"

definition remove_user_if_not_corrected :: "platform \<Rightarrow> user_id \<Rightarrow> bot_state \<Rightarrow> bot_state" where
  "remove_user_if_not_corrected P uid s0 =
     (case is_lecturer_or_admin P uid s0 of
        (True, s) \<Rightarrow> drop_pending uid s
      | (False, s) \<Rightarrow>
          (case get_chat_member P uid s of
             (None, s1) \<Rightarrow> drop_pending uid s1
           | (Some chat_member, s1) \<Rightarrow>
               let current_name = full_name (user chat_member)
               in if \<not> validate_name (MODE s1) current_name
                  then remove_for_violation P uid current_name s1
                  else acknowledge_correction P uid current_name s1))"







section \<open>The join handler\<close>







section \<open>The private message handler\<close>

record private_update =
  effective_user :: tg_user
  message_text :: string     \<comment> \<open>\<^verbatim>\<open>update.message.text or ""\<close>\<close>

definition record_attempt :: "user_id \<Rightarrow> datetime \<Rightarrow> bot_state \<Rightarrow> bot_state" where
  \<comment> \<open>\<^verbatim>\<open>user_data['attempts'] += 1; user_data['last_attempt'] = now\<close>, where
      \<^verbatim>\<open>user_data\<close> is the dictionary stored in \<^verbatim>\<open>rejoin_attempts[user_id]\<close>\<close>
  "record_attempt uid now s =
     (case map_of (rejoin_attempts s) uid of
        Some user_data \<Rightarrow>
          s\<lparr>rejoin_attempts := AList.update uid
               \<lparr>attempts = attempts user_data + 1, last_attempt = Some now\<rparr> (rejoin_attempts s)\<rparr>
      | None \<Rightarrow> s)"

fun notify_lecturers :: "platform \<Rightarrow> user_id list \<Rightarrow> notice \<Rightarrow> bot_state \<Rightarrow> bot_state" where
  \<comment> \<open>\<^verbatim>\<open>for lecturer_id in LECTURER_IDS: try: await send_message(...) except: pass\<close>\<close>
  "notify_lecturers P [] n s = s"
| "notify_lecturers P (lecturer_id # ids) n s =
     notify_lecturers P ids n (snd (send_message P (Private lecturer_id) n s))"

definition link_creation_failed :: "platform \<Rightarrow> user_id \<Rightarrow> bot_state \<Rightarrow> unit result \<times> bot_state" where
  \<comment> \<open>the \<^verbatim>\<open>except Exception\<close> block of the approval\<close>
  "link_creation_failed P uid s =
     (let s1 = s\<lparr>approved_rejoins := AList.delete uid (approved_rejoins s)\<rparr>
      in case reply_text P (Private uid) Error_creating_link_manual s1 of
           (Some m, s2) \<Rightarrow> (Return (), s2)
         | (None, s2) \<Rightarrow> (Raise TelegramError, s2))"

definition auto_approve :: "platform \<Rightarrow> datetime \<Rightarrow> user_id \<Rightarrow> string \<Rightarrow> bot_state \<Rightarrow> unit result \<times> bot_state" where
  \<comment> \<open>the branch \<^verbatim>\<open>if validate_name(display_name):\<close>\<close>
  "auto_approve P now uid name s =
     (let s1 = record_attempt uid now s;
          s2 = s1\<lparr>approved_rejoins := AList.update uid
                    \<lparr>approved_display_name = name, approval_time = now\<rparr> (approved_rejoins s1)\<rparr>
      in case create_invite_link P now uid s2 of
           (invite_link, s3) \<Rightarrow>
             if invite_link = None \<or> invite_link = Some [] then
               (case reply_text P (Private uid) Error_creating_link_retry s3 of
                  (Some m, s4) \<Rightarrow> (Return (), s4)
                | (None, s4) \<Rightarrow> link_creation_failed P uid s4)
             else
               let attempt = (case map_of (rejoin_attempts s3) uid of
                                Some user_data \<Rightarrow> attempts user_data | None \<Rightarrow> 0);
                   token = (case invite_link of Some l \<Rightarrow> l | None \<Rightarrow> [])
               in (case reply_text P (Private uid) (Auto_approved name token attempt) s3 of
                     (Some m, s4) \<Rightarrow>
                       (Return (), notify_lecturers P LECTURER_IDS (Bot_auto_approved_rejoin uid name) s4)
                   | (None, s4) \<Rightarrow> link_creation_failed P uid s4))"

definition deny_rejoin :: "platform \<Rightarrow> datetime \<Rightarrow> user_id \<Rightarrow> string \<Rightarrow> bot_state \<Rightarrow> unit result \<times> bot_state" where
  \<comment> \<open>the \<^verbatim>\<open>else\<close> branch: the name does not match the format\<close>
  "deny_rejoin P now uid name s =
     (let s1 = record_attempt uid now s;
          n = (case map_of (rejoin_attempts s1) uid of
                 Some user_data \<Rightarrow> attempts user_data | None \<Rightarrow> 0)
      in case reply_text P (Private uid) (Name_mismatch name n (REJOIN_ATTEMPTS_LIMIT - n)) s1 of
           (Some m, s2) \<Rightarrow> (Return (), s2)
         | (None, s2) \<Rightarrow> (Raise TelegramError, s2))"

definition rejoin_logic :: "platform \<Rightarrow> datetime \<Rightarrow> user_id \<Rightarrow> string \<Rightarrow> bot_state \<Rightarrow> unit result \<times> bot_state" where
  \<comment> \<open>\<^verbatim>\<open>REGULAR USER REJOIN LOGIC\<close>\<close>
  "rejoin_logic P now uid name s0 =
     (let s = (if has_key (rejoin_attempts s0) uid then s0
               else s0\<lparr>rejoin_attempts := AList.update uid
                         \<lparr>attempts = 0, last_attempt = None\<rparr> (rejoin_attempts s0)\<rparr>);
          user_data = (case map_of (rejoin_attempts s) uid of
                         Some d \<Rightarrow> d | None \<Rightarrow> \<lparr>attempts = 0, last_attempt = None\<rparr>);
          in_cooldown = (case last_attempt user_data of
                           Some t \<Rightarrow> now - t < seconds REJOIN_COOLDOWN | None \<Rightarrow> False)
      in if in_cooldown then
           (let time_since_last = now - (case last_attempt user_data of Some t \<Rightarrow> t | None \<Rightarrow> now)
            in case reply_text P (Private uid)
                      (Cooldown_active ((seconds REJOIN_COOLDOWN - time_since_last) div seconds 60)) s of
                 (Some m, s1) \<Rightarrow> (Return (), s1)
               | (None, s1) \<Rightarrow> (Raise TelegramError, s1))
         else if attempts user_data \<ge> REJOIN_ATTEMPTS_LIMIT then
           (case reply_text P (Private uid) Maximum_attempts_reached s of
              (Some m, s1) \<Rightarrow> (Return (), s1)
            | (None, s1) \<Rightarrow> (Raise TelegramError, s1))
         else if validate_name (MODE s) name then auto_approve P now uid name s
         else deny_rejoin P now uid name s)"

definition handle_private_message :: "platform \<Rightarrow> datetime \<Rightarrow> private_update \<Rightarrow> bot_state \<Rightarrow> unit result \<times> bot_state" where
  "handle_private_message P now update s0 =
     (let user_id = id_of (effective_user update);
          display_name = full_name (effective_user update)
      in case is_lecturer_or_admin P user_id s0 of
           (True, s) \<Rightarrow>
             if take 1 (message_text update) = ''/'' then (Return (), s)
             else (case reply_text P (Private user_id) Admin_hello s of
                     (Some m, s1) \<Rightarrow> (Return (), s1)
                   | (None, s1) \<Rightarrow> (Raise TelegramError, s1))
         | (False, s) \<Rightarrow> rejoin_logic P now user_id display_name s)"


section \<open>Start of the process\<close>

definition initial_state :: bot_state where
  \<comment> \<open>the module's globals as the file initialises them; \<^verbatim>\<open>COURSE_MODES["GNS101"]\<close> is
      \<^verbatim>\<open>"pre_matric"\<close>\<close>
  "initial_state =
     \<lparr>pending_corrections = [], warning_messages = [], rejoin_attempts = [],
      approved_rejoins = [], member_name_tracker = [], bot_messages_to_cleanup = [],
      group_admins = {}, active_invite_links = [], MODE = Pre_matric,
      job_queue = [], calls = []\<rparr>"

section \<open>Dispatch\<close>

text \<open>
  \<^verbatim>\<open>main\<close> registers, in this order and all in the same handler group, the four command
  handlers, then \<^verbatim>\<open>handle_new_member\<close> for \<^verbatim>\<open>StatusUpdate.NEW_CHAT_MEMBERS\<close>,
  \<^verbatim>\<open>handle_private_message\<close> for \<^verbatim>\<open>ChatType.PRIVATE & ~COMMAND\<close> and
  \<^verbatim>\<open>handle_message\<close> for \<^verbatim>\<open>TEXT & ~COMMAND\<close>. Within a group the first handler whose
  filter accepts the update handles it.
\<close>

record update_shape =
  chat_is_private :: bool
  bot_command :: "string option"       \<comment> \<open>the command, when the message starts with one\<close>
  has_new_chat_members :: bool
  has_text :: bool

datatype handler =
    Start_command | Switch_mode | Announce | Status
  | Handle_new_member | Handle_private_message | Handle_message

definition select_handler :: "update_shape \<Rightarrow> handler option" where
  "select_handler u =
     (if bot_command u = Some ''start'' then Some Start_command
      else if bot_command u = Some ''switch_mode'' then Some Switch_mode
      else if bot_command u = Some ''announce'' then Some Announce
      else if bot_command u = Some ''status'' then Some Status
      else if has_new_chat_members u then Some Handle_new_member
      else if chat_is_private u \<and> bot_command u = None then Some Handle_private_message
      else if has_text u \<and> bot_command u = None then Some Handle_message
      else None)"

section \<open>Observations used in the properties\<close>

definition new_calls :: "bot_state \<Rightarrow> bot_state \<Rightarrow> call list" where
  \<comment> \<open>the platform calls made between state \<open>s\<close> and the later state \<open>s'\<close>\<close>
  "new_calls s s' = drop (length (calls s)) (calls s')"


fun is_warning :: "call \<Rightarrow> bool" where
  "is_warning (Send_message c (Strict_warning n)) = True"
| "is_warning other = False"

fun is_removal_notice :: "call \<Rightarrow> bool" where
  "is_removal_notice (Send_message c (Removed_name_violation n)) = True"
| "is_removal_notice other = False"

definition exempt :: "platform \<Rightarrow> bot_state \<Rightarrow> user_id \<Rightarrow> bool" where
  \<comment> \<open>what \<^verbatim>\<open>is_lecturer_or_admin\<close> answers in state \<open>s\<close>\<close>
  "exempt P s uid = fst (is_lecturer_or_admin P uid s)"

definition attempts_of :: "bot_state \<Rightarrow> user_id \<Rightarrow> int" where
  \<comment> \<open>the attempt counter of a user; a user without a counter has made no attempt\<close>
  "attempts_of s uid =
     (case map_of (rejoin_attempts s) uid of Some d \<Rightarrow> attempts d | None \<Rightarrow> 0)"

definition last_attempt_of :: "bot_state \<Rightarrow> user_id \<Rightarrow> datetime option" where
  "last_attempt_of s uid =
     (case map_of (rejoin_attempts s) uid of Some d \<Rightarrow> last_attempt d | None \<Rightarrow> None)"

definition in_cooldown :: "bot_state \<Rightarrow> user_id \<Rightarrow> datetime \<Rightarrow> bool" where
  \<comment> \<open>a request at \<open>now\<close> arrives within \<^verbatim>\<open>REJOIN_COOLDOWN\<close> of the last attempt\<close>
  "in_cooldown s uid now =
     (case last_attempt_of s uid of
        Some t \<Rightarrow> now - t < seconds REJOIN_COOLDOWN | None \<Rightarrow> False)"

section \<open>Concrete platforms and inputs\<close>

definition platform_ok :: "string \<Rightarrow> platform" where
  \<comment> \<open>a platform where every call succeeds; every user is an ordinary member whose
      display name is \<open>name\<close>; a sent message gets the number of the call as its id\<close>
  "platform_ok name =
     \<lparr>on_get_chat_member = (\<lambda>n uid. Some \<lparr>status = Member,
          user = \<lparr>id_of = uid, full_name = name, tg_username = None\<rparr>\<rparr>),
      on_ban_chat_member = (\<lambda>n uid. True),
      on_send_message = (\<lambda>n c m. Some (int n)),
      on_delete_message = (\<lambda>n m. True),
      on_create_chat_invite_link = (\<lambda>n uid. Some ''https://t.me/+AbCdEf''),
      on_get_me = (\<lambda>n. True),
      bot_id = 1\<rparr>"

definition platform_no_link :: "string \<Rightarrow> platform" where
  \<comment> \<open>as \<open>platform_ok\<close>, but creating an invite link raises\<close>
  "platform_no_link name = (platform_ok name)\<lparr>on_create_chat_invite_link := (\<lambda>n uid. None)\<rparr>"


definition private_message_from :: "user_id \<Rightarrow> string \<Rightarrow> private_update" where
  "private_message_from uid name =
     \<lparr>effective_user = \<lparr>id_of = uid, full_name = name, tg_username = None\<rparr>,
      message_text = ''hello''\<rparr>"

definition warned_state :: bot_state where
  \<comment> \<open>user 42 joined as \<open>big mac\<close> and was warned: message 7, deadline after 15 minutes\<close>
  "warned_state = initial_state
     \<lparr>pending_corrections :=
        [(42, \<lparr>warning_msg_id = 7, username = None, display_name = ''big mac'',
               warning_time = 0, timer_end = 900000000\<rparr>)],
      warning_messages := [7],
      member_name_tracker := [(42, ''big mac'')],
      job_queue := [(Delete_specific_message 7, 300), (Remove_user_if_not_corrected 42, 900)]\<rparr>"




definition exhausted_state :: bot_state where
  \<comment> \<open>user 42 has used all three attempts, the last one at time 1000\<close>
  "exhausted_state = initial_state
     \<lparr>rejoin_attempts := [(42, \<lparr>attempts = 3, last_attempt = Some 1000\<rparr>)]\<rparr>"

definition platform_kicked :: "string \<Rightarrow> platform" where
  \<comment> \<open>as \<open>platform_ok\<close>, but every user is reported as banned from the group\<close>
  "platform_kicked name = (platform_ok name)
     \<lparr>on_get_chat_member := (\<lambda>n uid. Some \<lparr>status = Kicked,
          user = \<lparr>id_of = uid, full_name = name, tg_username = None\<rparr>\<rparr>)\<rparr>"

definition forget_membership :: "(user_id, string) dict \<Rightarrow> (user_id, pending_info) dict \<Rightarrow> bot_state \<Rightarrow> bot_state" where
  \<comment> \<open>the state with other contents of the member registry and the pending corrections\<close>
  "forget_membership t p s = s\<lparr>member_name_tracker := t, pending_corrections := p\<rparr>"

section \<open>The patterns, declaratively\<close>

text \<open>The language of a regular expression.\<close>

inductive_set star :: "string set \<Rightarrow> string set" for L :: "string set" where
  star_empty: "[] \<in> star L"
| star_step: "u \<in> L \<Longrightarrow> v \<in> star L \<Longrightarrow> u @ v \<in> star L"

fun lang :: "regex \<Rightarrow> string set" where
  "lang Empty = {}"
| "lang Eps = {[]}"
| "lang (Atom a) = {[c] | c. in_class a c}"
| "lang (Seq r s) = {u @ v | u v. u \<in> lang r \<and> v \<in> lang s}"
| "lang (Alt r s) = lang r \<union> lang s"
| "lang (Star r) = star (lang r)"

text \<open>
  The pattern of each mode as the specification words it: capitalized words, one space,
  an upper-case token, one space, twelve digits; and optional capitalized words with one
  space, then two to four upper-case letters, a slash, two digits, a slash, four digits.
  The words of the word part are taken to be separated by one space as well.
\<close>

definition one_space :: regex where
  "one_space = Atom (Lit (CHR '' ''))"

definition spec_capitalized_words :: regex where
  "spec_capitalized_words = Seq capitalized_word (Star (Seq one_space capitalized_word))"

definition SPEC_PRE_MATRIC :: regex where
  "SPEC_PRE_MATRIC =
     Seq spec_capitalized_words
    (Seq one_space
    (Seq (Plus (Atom Upper))
    (Seq one_space
         (Rep 12 (Atom Digit)))))"

definition SPEC_POST_MATRIC :: regex where
  "SPEC_POST_MATRIC =
     Seq (Opt (Seq spec_capitalized_words one_space))
    (Seq (Seq (Rep 2 (Atom Upper)) (Seq (Opt (Atom Upper)) (Opt (Atom Upper))))
    (Seq (Atom (Lit (CHR ''/'')))
    (Seq (Rep 2 (Atom Digit))
    (Seq (Atom (Lit (CHR ''/'')))
         (Rep 4 (Atom Digit))))))"

fun spec_pattern :: "mode \<Rightarrow> string \<Rightarrow> bool" where
  "spec_pattern Pre_matric name = matches SPEC_PRE_MATRIC name"
| "spec_pattern Post_matric name = matches SPEC_POST_MATRIC name"

text \<open>
  The shape of the names the validator accepts, piece by piece. A separator is any
  non-empty run of whitespace characters, and one newline may follow the last digit.
\<close>

definition cap_word :: "string \<Rightarrow> bool" where
  \<comment> \<open>an upper-case letter followed by one or more lower-case letters\<close>
  "cap_word w = (case w of [] \<Rightarrow> False | c # cs \<Rightarrow> is_upper c \<and> cs \<noteq> [] \<and> list_all is_lower cs)"

definition whitespace_run :: "string \<Rightarrow> bool" where
  "whitespace_run x = (x \<noteq> [] \<and> list_all is_space x)"

definition upper_token :: "string \<Rightarrow> bool" where
  "upper_token x = (x \<noteq> [] \<and> list_all is_upper x)"

definition digits :: "nat \<Rightarrow> string \<Rightarrow> bool" where
  "digits n x = (length x = n \<and> list_all is_digit x)"

definition cap_words :: "string \<Rightarrow> bool" where
  \<comment> \<open>a capitalized word, then any number of further ones, each after a separator\<close>
  "cap_words x =
     (\<exists>w rest. x = w @ concat (map (\<lambda>(sep, w'). sep @ w') rest) \<and> cap_word w
        \<and> list_all (\<lambda>(sep, w'). whitespace_run sep \<and> cap_word w') rest)"

definition end_of_name :: "string \<Rightarrow> bool" where
  "end_of_name x = (x = [] \<or> x = [newline])"

fun relaxed_pattern :: "mode \<Rightarrow> string \<Rightarrow> bool" where
  "relaxed_pattern Pre_matric name =
     (\<exists>ws s1 dept s2 num nl. name = ws @ s1 @ dept @ s2 @ num @ nl
        \<and> cap_words ws \<and> whitespace_run s1 \<and> upper_token dept \<and> whitespace_run s2
        \<and> digits 12 num \<and> end_of_name nl)"
| "relaxed_pattern Post_matric name =
     (\<exists>pre dept yy num nl. name = pre @ dept @ ''/'' @ yy @ ''/'' @ num @ nl
        \<and> (pre = [] \<or> (\<exists>ws s1. pre = ws @ s1 \<and> cap_words ws \<and> whitespace_run s1))
        \<and> 2 \<le> length dept \<and> length dept \<le> 4 \<and> list_all is_upper dept
        \<and> digits 2 yy \<and> digits 4 num \<and> end_of_name nl)"

section \<open>Properties of the name validator\<close>

lemma nullable_lang: "nullable r \<longleftrightarrow> [] \<in> lang r"
  by (induction r) (auto intro: star.star_empty)

lemma star_cons:
  "c # s \<in> star L \<longleftrightarrow> (\<exists>u v. s = u @ v \<and> c # u \<in> L \<and> v \<in> star L)"
proof
  assume "c # s \<in> star L"
  { fix x assume "x \<in> star L"
    then have "\<And>s. x = c # s \<Longrightarrow> \<exists>u v. s = u @ v \<and> c # u \<in> L \<and> v \<in> star L"
    proof (induction rule: star.induct)
      case star_empty
      then show ?case by simp
    next
      case (star_step u v)
      show ?case
      proof (cases u)
        case Nil
        then show ?thesis using star_step by simp
      next
        case (Cons a u')
        then have "a = c" "s = u' @ v" using star_step.prems by simp_all
        then show ?thesis using star_step.hyps Cons by blast
      qed
    qed }
  then show "\<exists>u v. s = u @ v \<and> c # u \<in> L \<and> v \<in> star L"
    using \<open>c # s \<in> star L\<close> by blast
next
  assume "\<exists>u v. s = u @ v \<and> c # u \<in> L \<and> v \<in> star L"
  then obtain u v where "s = u @ v" "c # u \<in> L" "v \<in> star L" by blast
  then show "c # s \<in> star L"
    using star.star_step[of "c # u" L v] by simp
qed

lemma lang_seq: "lang (seq r s) = lang (Seq r s)"
  by (auto simp: seq_def)

lemma lang_alt: "lang (alt r s) = lang (Alt r s)"
  by (auto simp: alt_def)

lemma lang_deriv: "lang (deriv c r) = {s. c # s \<in> lang r}"
proof (induction r)
  case (Seq r1 r2)
  have "\<And>s. (c # s \<in> lang (Seq r1 r2)) \<longleftrightarrow>
        ([] \<in> lang r1 \<and> c # s \<in> lang r2) \<or> (\<exists>u v. s = u @ v \<and> c # u \<in> lang r1 \<and> v \<in> lang r2)"
    by (auto simp: Cons_eq_append_conv)
  then show ?case
    using Seq by (auto simp: lang_seq lang_alt nullable_lang)
next
  case (Star r)
  then show ?case
    by (auto simp: lang_seq star_cons)
qed (auto simp: lang_alt)

lemma matches_lang: "matches r s \<longleftrightarrow> s \<in> lang r"
  by (induction s arbitrary: r) (simp_all add: nullable_lang lang_deriv)


lemma lang_Seq_mono:
  "lang r \<subseteq> lang r' \<Longrightarrow> lang s \<subseteq> lang s' \<Longrightarrow> lang (Seq r s) \<subseteq> lang (Seq r' s')"
  by auto

lemma star_mono:
  assumes "L \<subseteq> M"
  shows "star L \<subseteq> star M"
proof
  fix x assume "x \<in> star L"
  then show "x \<in> star M"
    by (induction rule: star.induct) (use assms in \<open>auto intro: star.intros\<close>)
qed

lemma lang_Star_mono: "lang r \<subseteq> lang r' \<Longrightarrow> lang (Star r) \<subseteq> lang (Star r')"
  by (simp add: star_mono)

lemma star_list_all:
  "x \<in> star {s. s \<noteq> [] \<and> list_all Q s} \<longleftrightarrow> list_all Q x"
proof
  assume "x \<in> star {s. s \<noteq> [] \<and> list_all Q s}"
  then show "list_all Q x"
    by (induction rule: star.induct) auto
next
  assume "list_all Q x"
  then show "x \<in> star {s. s \<noteq> [] \<and> list_all Q s}"
  proof (induction x)
    case Nil
    then show ?case by (rule_tac star.star_empty)
  next
    case (Cons a x)
    then have "[a] \<in> {s. s \<noteq> [] \<and> list_all Q s}" "x \<in> star {s. s \<noteq> [] \<and> list_all Q s}"
      by simp_all
    then show ?case using star.star_step[of "[a]" _ x] by simp
  qed
qed

lemma star_singletons:
  "x \<in> star {[c] | c. Q c} \<longleftrightarrow> list_all Q x"
proof
  assume "x \<in> star {[c] | c. Q c}"
  then show "list_all Q x"
    by (induction rule: star.induct) auto
next
  assume "list_all Q x"
  then show "x \<in> star {[c] | c. Q c}"
  proof (induction x)
    case Nil
    then show ?case by (rule_tac star.star_empty)
  next
    case (Cons a x)
    then have "[a] \<in> {[c] | c. Q c}" "x \<in> star {[c] | c. Q c}"
      by simp_all
    then show ?case using star.star_step[of "[a]" _ x] by simp
  qed
qed

lemma in_class_eq [simp]:
  "in_class Upper = is_upper" "in_class Lower = is_lower"
  "in_class Digit = is_digit" "in_class Space = is_space"
  by (simp_all add: fun_eq_iff)

lemma lang_Seq_Atom:
  "lang (Seq (Atom a) r) = {c # v | c v. in_class a c \<and> v \<in> lang r}" (is "?L = ?R")
proof
  show "?L \<subseteq> ?R" by auto
  show "?R \<subseteq> ?L"
  proof
    fix x assume "x \<in> ?R"
    then obtain c v where "x = [c] @ v" "[c] \<in> lang (Atom a)" "v \<in> lang r" by auto
    then show "x \<in> ?L" unfolding lang.simps(4) by blast
  qed
qed

lemma lang_Plus_Atom: "lang (Plus (Atom a)) = {x. x \<noteq> [] \<and> list_all (in_class a) x}"
proof -
  have "lang (Plus (Atom a)) = {c # v | c v. in_class a c \<and> list_all (in_class a) v}"
    unfolding Plus_def lang_Seq_Atom by (simp add: star_singletons)
  also have "\<dots> = {x. x \<noteq> [] \<and> list_all (in_class a) x}"
  proof -
    have "\<And>x. (\<exists>c v. x = c # v \<and> in_class a c \<and> list_all (in_class a) v)
            \<longleftrightarrow> x \<noteq> [] \<and> list_all (in_class a) x"
    proof -
      fix x
      show "(\<exists>c v. x = c # v \<and> in_class a c \<and> list_all (in_class a) v)
            \<longleftrightarrow> x \<noteq> [] \<and> list_all (in_class a) x"
        by (cases x) auto
    qed
    then show ?thesis by blast
  qed
  finally show ?thesis .
qed

lemma lang_Rep_Atom: "lang (Rep n (Atom a)) = {x. length x = n \<and> list_all (in_class a) x}"
proof (induction n)
  case 0
  then show ?case by auto
next
  case (Suc n)
  have "lang (Rep (Suc n) (Atom a)) = {c # v | c v. in_class a c \<and> length v = n \<and> list_all (in_class a) v}"
    unfolding Rep.simps lang_Seq_Atom Suc by simp
  also have "\<dots> = {x. length x = Suc n \<and> list_all (in_class a) x}"
  proof -
    have "\<And>x. (\<exists>c v. x = c # v \<and> in_class a c \<and> length v = n \<and> list_all (in_class a) v)
            \<longleftrightarrow> length x = Suc n \<and> list_all (in_class a) x"
    proof -
      fix x
      show "(\<exists>c v. x = c # v \<and> in_class a c \<and> length v = n \<and> list_all (in_class a) v)
            \<longleftrightarrow> length x = Suc n \<and> list_all (in_class a) x"
        by (cases x) auto
    qed
    then show ?thesis by blast
  qed
  finally show ?case .
qed

lemma lang_capitalized_word: "lang capitalized_word = {w. cap_word w}"
proof -
  have "lang capitalized_word = {c # v | c v. is_upper c \<and> v \<noteq> [] \<and> list_all is_lower v}"
    unfolding capitalized_word_def lang_Seq_Atom lang_Plus_Atom
    by (simp add: list_all_iff)
  also have "\<dots> = {w. cap_word w}"
  proof -
    have "\<And>w. (\<exists>c v. w = c # v \<and> is_upper c \<and> v \<noteq> [] \<and> list_all is_lower v) \<longleftrightarrow> cap_word w"
    proof -
      fix w
      show "(\<exists>c v. w = c # v \<and> is_upper c \<and> v \<noteq> [] \<and> list_all is_lower v) \<longleftrightarrow> cap_word w"
        by (cases w) (auto simp: cap_word_def)
    qed
    then show ?thesis by blast
  qed
  finally show ?thesis .
qed

lemma lang_Dollar: "lang Dollar = {x. end_of_name x}"
  by (auto simp: Dollar_def Opt_def end_of_name_def)

lemma lang_Opt: "lang (Opt r) = insert [] (lang r)"
  by (auto simp: Opt_def)


lemma star_image:
  "x \<in> star {f p | p. Q p} \<longleftrightarrow> (\<exists>ps. x = concat (map f ps) \<and> list_all Q ps)"
proof
  assume "x \<in> star {f p | p. Q p}"
  then show "\<exists>ps. x = concat (map f ps) \<and> list_all Q ps"
  proof (induction rule: star.induct)
    case star_empty
    have "[] = concat (map f []) \<and> list_all Q []" by simp
    then show ?case by blast
  next
    case (star_step u v)
    then obtain p ps where "u = f p" "Q p" "v = concat (map f ps)" "list_all Q ps" by auto
    then have "u @ v = concat (map f (p # ps)) \<and> list_all Q (p # ps)" by simp
    then show ?case by blast
  qed
next
  assume "\<exists>ps. x = concat (map f ps) \<and> list_all Q ps"
  then obtain ps where "x = concat (map f ps)" "list_all Q ps" by blast
  then show "x \<in> star {f p | p. Q p}"
  proof (induction ps arbitrary: x)
    case Nil
    then show ?case by (simp add: star.star_empty)
  next
    case (Cons p ps)
    then have "f p \<in> {f p | p. Q p}" "concat (map f ps) \<in> star {f p | p. Q p}" by auto
    then show ?case using star.star_step[of "f p" _ "concat (map f ps)"] Cons.prems by simp
  qed
qed

lemma lang_Seq_iff: "x \<in> lang (Seq r s) \<longleftrightarrow> (\<exists>u v. x = u @ v \<and> u \<in> lang r \<and> v \<in> lang s)"
  by auto

lemma lang_SeqI: "u \<in> lang r \<Longrightarrow> v \<in> lang s \<Longrightarrow> u @ v \<in> lang (Seq r s)"
  by auto

lemma lang_SeqE:
  assumes "x \<in> lang (Seq r s)"
  obtains u v where "x = u @ v" "u \<in> lang r" "v \<in> lang s"
  using assms by auto

lemma lang_separated_word:
  "lang (Seq (Plus (Atom Space)) capitalized_word) =
     {(\<lambda>(sep, w'). sep @ w') p | p. (\<lambda>(sep, w'). whitespace_run sep \<and> cap_word w') p}"
  unfolding lang.simps(4) lang_Plus_Atom lang_capitalized_word
  by (simp add: whitespace_run_def)

lemma lang_capitalized_words: "x \<in> lang capitalized_words \<longleftrightarrow> cap_words x"
proof
  assume "x \<in> lang capitalized_words"
  then obtain w v where x: "x = w @ v" and w: "w \<in> lang capitalized_word"
    and v: "v \<in> star (lang (Seq (Plus (Atom Space)) capitalized_word))"
    unfolding capitalized_words_def by (auto elim: lang_SeqE)
  obtain rest where "v = concat (map (\<lambda>(sep, w'). sep @ w') rest)"
    "list_all (\<lambda>(sep, w'). whitespace_run sep \<and> cap_word w') rest"
    using v unfolding lang_separated_word star_image by blast
  then show "cap_words x"
    unfolding cap_words_def using x w lang_capitalized_word by blast
next
  assume "cap_words x"
  then obtain w rest where x: "x = w @ concat (map (\<lambda>(sep, w'). sep @ w') rest)"
    and w: "cap_word w"
    and r: "list_all (\<lambda>(sep, w'). whitespace_run sep \<and> cap_word w') rest"
    unfolding cap_words_def by blast
  have "concat (map (\<lambda>(sep, w'). sep @ w') rest) \<in> lang (Star (Seq (Plus (Atom Space)) capitalized_word))"
    unfolding lang.simps(6) lang_separated_word star_image using r by blast
  moreover have "w \<in> lang capitalized_word" using w lang_capitalized_word by simp
  ultimately show "x \<in> lang capitalized_words"
    unfolding capitalized_words_def x by (rule_tac lang_SeqI)
qed

lemma lang_whitespace: "x \<in> lang (Plus (Atom Space)) \<longleftrightarrow> whitespace_run x"
  by (simp add: lang_Plus_Atom whitespace_run_def)

lemma lang_upper_token: "x \<in> lang (Plus (Atom Upper)) \<longleftrightarrow> upper_token x"
  by (simp add: lang_Plus_Atom upper_token_def)

lemma lang_digits: "x \<in> lang (Rep n (Atom Digit)) \<longleftrightarrow> digits n x"
  by (simp add: lang_Rep_Atom digits_def)

lemma lang_end_of_name: "x \<in> lang Dollar \<longleftrightarrow> end_of_name x"
  by (simp add: lang_Dollar)

lemma lang_PRE_MATRIC_PATTERN:
  "name \<in> lang PRE_MATRIC_PATTERN \<longleftrightarrow> relaxed_pattern Pre_matric name"
proof
  assume "name \<in> lang PRE_MATRIC_PATTERN"
  then have r0: "name \<in> lang (Seq capitalized_words (Seq (Plus (Atom Space)) (Seq (Plus (Atom Upper))
           (Seq (Plus (Atom Space)) (Seq (Rep 12 (Atom Digit)) Dollar)))))"
    unfolding PRE_MATRIC_PATTERN_def .
  from r0 obtain ws r1 where 1: "name = ws @ r1" "ws \<in> lang capitalized_words"
    and r1: "r1 \<in> lang (Seq (Plus (Atom Space)) (Seq (Plus (Atom Upper))
           (Seq (Plus (Atom Space)) (Seq (Rep 12 (Atom Digit)) Dollar))))"
    by (rule lang_SeqE)
  from r1 obtain s1 r2 where 2: "r1 = s1 @ r2" "s1 \<in> lang (Plus (Atom Space))"
    and r2: "r2 \<in> lang (Seq (Plus (Atom Upper)) (Seq (Plus (Atom Space)) (Seq (Rep 12 (Atom Digit)) Dollar)))"
    by (rule lang_SeqE)
  from r2 obtain dept r3 where 3: "r2 = dept @ r3" "dept \<in> lang (Plus (Atom Upper))"
    and r3: "r3 \<in> lang (Seq (Plus (Atom Space)) (Seq (Rep 12 (Atom Digit)) Dollar))"
    by (rule lang_SeqE)
  from r3 obtain s2 r4 where 4: "r3 = s2 @ r4" "s2 \<in> lang (Plus (Atom Space))"
    and r4: "r4 \<in> lang (Seq (Rep 12 (Atom Digit)) Dollar)"
    by (rule lang_SeqE)
  from r4 obtain num nl where 5: "r4 = num @ nl" "num \<in> lang (Rep 12 (Atom Digit))" "nl \<in> lang Dollar"
    by (rule lang_SeqE)
  have "name = ws @ s1 @ dept @ s2 @ num @ nl \<and> cap_words ws \<and> whitespace_run s1
        \<and> upper_token dept \<and> whitespace_run s2 \<and> digits 12 num \<and> end_of_name nl"
    using 1 2 3 4 5
    by (simp add: lang_capitalized_words lang_whitespace lang_upper_token lang_digits lang_end_of_name)
  then show "relaxed_pattern Pre_matric name"
    unfolding relaxed_pattern.simps by blast
next
  assume "relaxed_pattern Pre_matric name"
  then obtain ws s1 dept s2 num nl where n: "name = ws @ s1 @ dept @ s2 @ num @ nl"
    and p: "cap_words ws" "whitespace_run s1" "upper_token dept" "whitespace_run s2"
      "digits 12 num" "end_of_name nl"
    unfolding relaxed_pattern.simps by blast
  have "ws \<in> lang capitalized_words" "s1 \<in> lang (Plus (Atom Space))"
    "dept \<in> lang (Plus (Atom Upper))" "s2 \<in> lang (Plus (Atom Space))"
    "num \<in> lang (Rep 12 (Atom Digit))" "nl \<in> lang Dollar"
    using p
    by (simp_all add: lang_capitalized_words lang_whitespace lang_upper_token lang_digits lang_end_of_name)
  then show "name \<in> lang PRE_MATRIC_PATTERN"
    unfolding PRE_MATRIC_PATTERN_def n by (intro lang_SeqI)
qed

lemma lang_upper_2_4:
  "x \<in> lang (Seq (Rep 2 (Atom Upper)) (Seq (Opt (Atom Upper)) (Opt (Atom Upper))))
     \<longleftrightarrow> 2 \<le> length x \<and> length x \<le> 4 \<and> list_all is_upper x"
proof
  assume "x \<in> lang (Seq (Rep 2 (Atom Upper)) (Seq (Opt (Atom Upper)) (Opt (Atom Upper))))"
  then obtain u r where u: "x = u @ r" "u \<in> lang (Rep 2 (Atom Upper))"
    and r: "r \<in> lang (Seq (Opt (Atom Upper)) (Opt (Atom Upper)))"
    by (rule lang_SeqE)
  from r obtain v w where "r = v @ w" "v \<in> lang (Opt (Atom Upper))" "w \<in> lang (Opt (Atom Upper))"
    by (rule lang_SeqE)
  with u have "x = u @ v @ w" "u \<in> lang (Rep 2 (Atom Upper))"
    "v \<in> lang (Opt (Atom Upper))" "w \<in> lang (Opt (Atom Upper))"
    by simp_all
  then show "2 \<le> length x \<and> length x \<le> 4 \<and> list_all is_upper x"
    by (auto simp: lang_Rep_Atom lang_Opt)
next
  assume a: "2 \<le> length x \<and> length x \<le> 4 \<and> list_all is_upper x"
  let ?u = "take 2 x" and ?v = "take 1 (drop 2 x)" and ?w = "drop 3 x"
  have "take 1 (drop 2 x) @ drop 1 (drop 2 x) = drop 2 x" by (rule append_take_drop_id)
  moreover have "drop 1 (drop 2 x) = drop 3 x" by (simp add: numeral_3_eq_3)
  ultimately have "?v @ ?w = drop 2 x" by simp
  then have x: "x = ?u @ ?v @ ?w" by simp
  have all: "\<And>c. c \<in> set x \<Longrightarrow> is_upper c" using a by (simp add: list_all_iff)
  have u: "?u \<in> lang (Rep 2 (Atom Upper))"
    using a all by (auto simp: lang_Rep_Atom list_all_iff dest: in_set_takeD)
  have v: "?v \<in> lang (Opt (Atom Upper))"
  proof (cases "drop 2 x")
    case Nil
    then show ?thesis by (simp add: lang_Opt)
  next
    case (Cons c cs)
    have "c \<in> set x" using Cons by (metis in_set_dropD list.set_intros(1))
    then show ?thesis using Cons all by (simp add: lang_Opt)
  qed
  have w: "?w \<in> lang (Opt (Atom Upper))"
  proof (cases "drop 3 x")
    case Nil
    then show ?thesis by (simp add: lang_Opt)
  next
    case (Cons c cs)
    have "length x \<le> 4" using a by simp
    then have "length (drop 3 x) \<le> 1" by simp
    then have "cs = []" using Cons by simp
    moreover have "c \<in> set x" using Cons by (metis in_set_dropD list.set_intros(1))
    ultimately show ?thesis using all Cons by (simp add: lang_Opt)
  qed
  have "?u @ ?v @ ?w \<in> lang (Seq (Rep 2 (Atom Upper)) (Seq (Opt (Atom Upper)) (Opt (Atom Upper))))"
    using u v w by (intro lang_SeqI)
  then show "x \<in> lang (Seq (Rep 2 (Atom Upper)) (Seq (Opt (Atom Upper)) (Opt (Atom Upper))))"
    using x by simp
qed


lemma lang_Lit: "x \<in> lang (Atom (Lit c)) \<longleftrightarrow> x = [c]"
  by auto

lemma lang_POST_MATRIC_PATTERN:
  "name \<in> lang POST_MATRIC_PATTERN \<longleftrightarrow> relaxed_pattern Post_matric name"
proof
  assume "name \<in> lang POST_MATRIC_PATTERN"
  then have r0: "name \<in> lang (Seq (Opt (Seq capitalized_words (Plus (Atom Space))))
    (Seq (Seq (Rep 2 (Atom Upper)) (Seq (Opt (Atom Upper)) (Opt (Atom Upper))))
    (Seq (Atom (Lit (CHR ''/'')))
    (Seq (Rep 2 (Atom Digit))
    (Seq (Atom (Lit (CHR ''/'')))
    (Seq (Rep 4 (Atom Digit)) Dollar))))))"
    unfolding POST_MATRIC_PATTERN_def .
  from r0 obtain pre r1 where 1: "name = pre @ r1"
    and pre: "pre \<in> lang (Opt (Seq capitalized_words (Plus (Atom Space))))"
    and r1: "r1 \<in> lang (Seq (Seq (Rep 2 (Atom Upper)) (Seq (Opt (Atom Upper)) (Opt (Atom Upper))))
      (Seq (Atom (Lit (CHR ''/''))) (Seq (Rep 2 (Atom Digit))
      (Seq (Atom (Lit (CHR ''/''))) (Seq (Rep 4 (Atom Digit)) Dollar)))))"
    by (rule lang_SeqE)
  from r1 obtain dept r2 where 2: "r1 = dept @ r2"
    "dept \<in> lang (Seq (Rep 2 (Atom Upper)) (Seq (Opt (Atom Upper)) (Opt (Atom Upper))))"
    and r2: "r2 \<in> lang (Seq (Atom (Lit (CHR ''/''))) (Seq (Rep 2 (Atom Digit))
      (Seq (Atom (Lit (CHR ''/''))) (Seq (Rep 4 (Atom Digit)) Dollar))))"
    by (rule lang_SeqE)
  from r2 obtain sl1 r3 where 3: "r2 = sl1 @ r3" "sl1 \<in> lang (Atom (Lit (CHR ''/'')))"
    and r3: "r3 \<in> lang (Seq (Rep 2 (Atom Digit))
      (Seq (Atom (Lit (CHR ''/''))) (Seq (Rep 4 (Atom Digit)) Dollar)))"
    by (rule lang_SeqE)
  from r3 obtain yy r4 where 4: "r3 = yy @ r4" "yy \<in> lang (Rep 2 (Atom Digit))"
    and r4: "r4 \<in> lang (Seq (Atom (Lit (CHR ''/''))) (Seq (Rep 4 (Atom Digit)) Dollar))"
    by (rule lang_SeqE)
  from r4 obtain sl2 r5 where 5: "r4 = sl2 @ r5" "sl2 \<in> lang (Atom (Lit (CHR ''/'')))"
    and r5: "r5 \<in> lang (Seq (Rep 4 (Atom Digit)) Dollar)"
    by (rule lang_SeqE)
  from r5 obtain num nl where 6: "r5 = num @ nl" "num \<in> lang (Rep 4 (Atom Digit))" "nl \<in> lang Dollar"
    by (rule lang_SeqE)
  have p: "pre = [] \<or> (\<exists>ws s1. pre = ws @ s1 \<and> cap_words ws \<and> whitespace_run s1)"
  proof (cases "pre = []")
    case True
    then show ?thesis by simp
  next
    case False
    then have "pre \<in> lang (Seq capitalized_words (Plus (Atom Space)))"
      using pre by (simp add: lang_Opt)
    then obtain ws s1 where "pre = ws @ s1" "ws \<in> lang capitalized_words"
      "s1 \<in> lang (Plus (Atom Space))"
      by (rule lang_SeqE)
    then show ?thesis
      using lang_capitalized_words lang_whitespace by blast
  qed
  have "name = pre @ dept @ ''/'' @ yy @ ''/'' @ num @ nl
        \<and> 2 \<le> length dept \<and> length dept \<le> 4 \<and> list_all is_upper dept
        \<and> digits 2 yy \<and> digits 4 num \<and> end_of_name nl"
    using 1 2(1) 3 4 5 6 lang_upper_2_4[THEN iffD1, OF 2(2)]
    by (simp add: lang_Lit lang_digits lang_end_of_name)
  then show "relaxed_pattern Post_matric name"
    unfolding relaxed_pattern.simps using p by blast
next
  assume "relaxed_pattern Post_matric name"
  then obtain pre dept yy num nl where n: "name = pre @ dept @ ''/'' @ yy @ ''/'' @ num @ nl"
    and pre: "pre = [] \<or> (\<exists>ws s1. pre = ws @ s1 \<and> cap_words ws \<and> whitespace_run s1)"
    and p: "2 \<le> length dept \<and> length dept \<le> 4 \<and> list_all is_upper dept"
      "digits 2 yy" "digits 4 num" "end_of_name nl"
    unfolding relaxed_pattern.simps by blast
  have a: "pre \<in> lang (Opt (Seq capitalized_words (Plus (Atom Space))))"
  proof (cases "pre = []")
    case True
    then show ?thesis by (simp add: lang_Opt)
  next
    case False
    then obtain ws s1 where "pre = ws @ s1" "cap_words ws" "whitespace_run s1"
      using pre by blast
    then have "pre \<in> lang (Seq capitalized_words (Plus (Atom Space)))"
      using lang_capitalized_words lang_whitespace lang_SeqI by blast
    then show ?thesis by (simp add: lang_Opt)
  qed
  have b: "dept \<in> lang (Seq (Rep 2 (Atom Upper)) (Seq (Opt (Atom Upper)) (Opt (Atom Upper))))"
    "''/'' \<in> lang (Atom (Lit (CHR ''/'')))"
    "yy \<in> lang (Rep 2 (Atom Digit))" "num \<in> lang (Rep 4 (Atom Digit))" "nl \<in> lang Dollar"
    using p lang_upper_2_4[THEN iffD2, of dept]
    by (simp_all add: lang_digits lang_end_of_name lang_Lit del: lang.simps)
  show "name \<in> lang POST_MATRIC_PATTERN"
    unfolding POST_MATRIC_PATTERN_def n using a b by (intro lang_SeqI)
qed

lemma lang_one_space: "lang one_space \<subseteq> lang (Plus (Atom Space))"
proof -
  have "is_space (CHR '' '')" by (simp add: is_space_def)
  then show ?thesis by (auto simp: one_space_def lang_Plus_Atom)
qed

lemma lang_spec_capitalized_words: "lang spec_capitalized_words \<subseteq> lang capitalized_words"
  unfolding spec_capitalized_words_def capitalized_words_def
  by (intro lang_Seq_mono lang_Star_mono lang_one_space subset_refl)

lemma lang_without_Dollar: "lang r \<subseteq> lang (Seq r Dollar)"
proof
  fix x assume "x \<in> lang r"
  moreover have "[] \<in> lang Dollar" by (simp add: lang_Dollar end_of_name_def)
  ultimately have "x @ [] \<in> lang (Seq r Dollar)" by (rule lang_SeqI)
  then show "x \<in> lang (Seq r Dollar)" by simp
qed

lemma lang_Opt_mono: "lang r \<subseteq> lang r' \<Longrightarrow> lang (Opt r) \<subseteq> lang (Opt r')"
  by (auto simp: lang_Opt)

lemma lang_SPEC_PRE_MATRIC: "lang SPEC_PRE_MATRIC \<subseteq> lang PRE_MATRIC_PATTERN"
  unfolding SPEC_PRE_MATRIC_def PRE_MATRIC_PATTERN_def
  by (intro lang_Seq_mono lang_spec_capitalized_words lang_one_space lang_without_Dollar subset_refl)

lemma lang_SPEC_POST_MATRIC: "lang SPEC_POST_MATRIC \<subseteq> lang POST_MATRIC_PATTERN"
  unfolding SPEC_POST_MATRIC_def POST_MATRIC_PATTERN_def
  by (intro lang_Seq_mono lang_Opt_mono lang_spec_capitalized_words lang_one_space
      lang_without_Dollar subset_refl)

text \<open>
  C5. In either mode the validator accepts every name that matches the mode's pattern as
  the specification words it, and it accepts exactly the names of the relaxed shape: the
  same pieces (capitalized words, upper-case token and twelve digits; or optional
  capitalized words, two to four upper-case letters, slash, two digits, slash, four
  digits), where each separating space may be any non-empty run of whitespace characters
  and one newline may follow the last digit. A name whose letters have the wrong case or
  whose digit groups have the wrong length has no such shape and is rejected.
\<close>

theorem validate_name_pattern:
  "(spec_pattern m name \<longrightarrow> validate_name m name)
   \<and> (validate_name m name \<longleftrightarrow> relaxed_pattern m name)"
proof (cases m)
  case Pre_matric
  then show ?thesis
    using lang_SPEC_PRE_MATRIC lang_PRE_MATRIC_PATTERN[of name]
    by (auto simp: matches_lang)
next
  case Post_matric
  then show ?thesis
    using lang_SPEC_POST_MATRIC lang_POST_MATRIC_PATTERN[of name]
    by (auto simp: matches_lang)
qed

text \<open>
  Names that differ from the worded pattern in spacing and are accepted all the same: two
  spaces between the name and the department, and a newline after the matric number.
\<close>

theorem validate_name_pattern_counterexample:
  "validate_name Pre_matric ''Tope  IFT 202311038308''
   \<and> \<not> spec_pattern Pre_matric ''Tope  IFT 202311038308''
   \<and> validate_name Post_matric (''ABC/23/4567'' @ [newline])
   \<and> \<not> spec_pattern Post_matric (''ABC/23/4567'' @ [newline])"
  by code_simp

text \<open>The examples of the specification.\<close>

theorem validate_name_pattern_witness:
  "validate_name Pre_matric ''Tope Chinedu Garba IFT 202311038308''
   \<and> relaxed_pattern Pre_matric ''Tope Chinedu Garba IFT 202311038308''
   \<and> validate_name Post_matric ''Abdul ABC/23/4567''
   \<and> relaxed_pattern Post_matric ''ABC/23/4567''
   \<and> \<not> relaxed_pattern Pre_matric ''Tope Chinedu''
   \<and> \<not> relaxed_pattern Post_matric ''APC/23/21457''"
proof -
  have 1: "spec_pattern Pre_matric ''Tope Chinedu Garba IFT 202311038308''" by code_simp
  have 2: "spec_pattern Post_matric ''Abdul ABC/23/4567''" by code_simp
  have 3: "validate_name Post_matric ''ABC/23/4567''" by code_simp
  have 4: "\<not> validate_name Pre_matric ''Tope Chinedu''" by code_simp
  have 5: "\<not> validate_name Post_matric ''APC/23/21457''" by code_simp
  show ?thesis
    using validate_name_pattern[of Pre_matric "''Tope Chinedu Garba IFT 202311038308''"]
      validate_name_pattern[of Post_matric "''Abdul ABC/23/4567''"]
      validate_name_pattern[of Post_matric "''ABC/23/4567''"]
      validate_name_pattern[of Pre_matric "''Tope Chinedu''"]
      validate_name_pattern[of Post_matric "''APC/23/21457''"] 1 2 3 4 5
    by blast
qed

section \<open>Properties of the link-expiry sweep\<close>

lemma delete_as_filter: "AList.delete k d = filter (\<lambda>(k', v). k' \<noteq> k) d"
  by (induction d) auto

lemma fold_delete_filter:
  "fold (\<lambda>k d. AList.delete k d) ks d = filter (\<lambda>(k, v). k \<notin> set ks) d"
proof (induction ks arbitrary: d)
  case Nil
  then show ?case by simp
next
  case (Cons k ks)
  have "fold (\<lambda>k d. AList.delete k d) (k # ks) d =
          filter (\<lambda>(k', v). k' \<notin> set ks) (AList.delete k d)"
    by (simp add: Cons)
  also have "\<dots> = filter (\<lambda>(k', v). k' \<notin> set ks) (filter (\<lambda>(k', v). k' \<noteq> k) d)"
    by (simp only: delete_as_filter)
  also have "\<dots> = filter (\<lambda>(k', v). k' \<notin> set (k # ks)) d"
    by (induction d) auto
  finally show ?case .
qed

lemma distinct_key_filter:
  assumes "distinct (map fst d)" and "(k, v) \<in> set d"
  shows "k \<in> fst ` set (filter Q d) \<longleftrightarrow> Q (k, v)"
proof
  assume "k \<in> fst ` set (filter Q d)"
  then obtain v' where v': "(k, v') \<in> set d" "Q (k, v')" by auto
  have "v' = v" using assms v'(1) by (rule_tac eq_key_imp_eq_value)
  then show "Q (k, v)" using v' by simp
next
  assume "Q (k, v)"
  then have "(k, v) \<in> set (filter Q d)" using assms(2) by simp
  then show "k \<in> fst ` set (filter Q d)"
    by (rule_tac image_eqI[where x="(k, v)"]) simp_all
qed

text \<open>
  C8. The sweep at time \<open>now\<close> keeps exactly the admission links that have not expired
  (\<open>expires_at < now\<close> is removed, everything else stays, in the same order) and changes no
  other store: the state after the sweep is the state before it with only
  \<open>active_invite_links\<close> filtered. In particular the approved rejoins are untouched.
  A dictionary has one entry per key, which is the hypothesis.
\<close>

theorem cleanup_expired_links_exact:
  assumes "distinct (map fst (active_invite_links s))"
  shows "cleanup_expired_links now s =
           s\<lparr>active_invite_links :=
               filter (\<lambda>(uid, link_data). \<not> expires_at link_data < now) (active_invite_links s)\<rparr>
         \<and> approved_rejoins (cleanup_expired_links now s) = approved_rejoins s"
proof -
  let ?d = "active_invite_links s"
  let ?E = "filter (\<lambda>(uid, link_data). now > expires_at link_data) ?d"
  have "filter (\<lambda>(k, v). k \<notin> set (map fst ?E)) ?d =
          filter (\<lambda>(uid, link_data). \<not> expires_at link_data < now) ?d"
  proof (rule filter_cong[OF refl])
    fix x assume x: "x \<in> set ?d"
    obtain k v where kv: "x = (k, v)" by (cases x)
    have "k \<in> fst ` set ?E \<longleftrightarrow> expires_at v < now"
      using distinct_key_filter[OF assms, of k v "\<lambda>(uid, link_data). now > expires_at link_data"] x kv
      by simp
    then show "(case x of (k, v) \<Rightarrow> k \<notin> set (map fst ?E)) =
                 (case x of (uid, link_data) \<Rightarrow> \<not> expires_at link_data < now)"
      using kv by simp
  qed
  then show ?thesis
    by (simp add: cleanup_expired_links_def fold_delete_filter)
qed

theorem cleanup_expired_links_exact_witness:
  "distinct (map fst [(1 :: int, \<lparr>link = ''a'', created_at = 0, used = False, expires_at = 5\<rparr>),
                      (2, \<lparr>link = ''b'', created_at = 0, used = False, expires_at = 50\<rparr>)])
   \<and> cleanup_expired_links 10
        (initial_state\<lparr>active_invite_links :=
           [(1, \<lparr>link = ''a'', created_at = 0, used = False, expires_at = 5\<rparr>),
            (2, \<lparr>link = ''b'', created_at = 0, used = False, expires_at = 50\<rparr>)],
          approved_rejoins := [(1, \<lparr>approved_display_name = ''Tope IFT 202311038308'', approval_time = 0\<rparr>)]\<rparr>)
     = initial_state\<lparr>active_invite_links :=
           [(2, \<lparr>link = ''b'', created_at = 0, used = False, expires_at = 50\<rparr>)],
          approved_rejoins := [(1, \<lparr>approved_display_name = ''Tope IFT 202311038308'', approval_time = 0\<rparr>)]\<rparr>"
  using cleanup_expired_links_exact
    [of "initial_state\<lparr>active_invite_links :=
           [(1, \<lparr>link = ''a'', created_at = 0, used = False, expires_at = 5\<rparr>),
            (2, \<lparr>link = ''b'', created_at = 0, used = False, expires_at = 50\<rparr>)],
          approved_rejoins := [(1, \<lparr>approved_display_name = ''Tope IFT 202311038308'', approval_time = 0\<rparr>)]\<rparr>" 10]
  by (simp add: initial_state_def)


section \<open>Properties of the private message handler\<close>

lemma logged_fields [simp]:
  "pending_corrections (logged c s) = pending_corrections s"
  "warning_messages (logged c s) = warning_messages s"
  "rejoin_attempts (logged c s) = rejoin_attempts s"
  "approved_rejoins (logged c s) = approved_rejoins s"
  "member_name_tracker (logged c s) = member_name_tracker s"
  "bot_messages_to_cleanup (logged c s) = bot_messages_to_cleanup s"
  "group_admins (logged c s) = group_admins s"
  "active_invite_links (logged c s) = active_invite_links s"
  "MODE (logged c s) = MODE s"
  "job_queue (logged c s) = job_queue s"
  "calls (logged c s) = calls s @ [c]"
  by (simp_all add: logged_def)

lemma is_lecturer_or_admin_False:
  assumes "\<not> exempt P s uid"
  shows "is_lecturer_or_admin P uid s = (False, logged (Get_chat_member uid) s)"
  using assms
  by (auto simp: exempt_def is_lecturer_or_admin_def get_chat_member_def split: if_splits option.splits)

lemma new_calls_append [simp]: "calls s' = calls s @ xs \<Longrightarrow> new_calls s s' = xs"
  by (simp add: new_calls_def)

lemma snd_send_message [simp]: "snd (send_message P c n s) = logged (Send_message c n) s"
  by (simp add: send_message_def)

lemma snd_reply_text [simp]: "snd (reply_text P c n s) = logged (Send_message c n) s"
  by (simp add: reply_text_def)

lemma is_lecturer_or_admin_frame:
  assumes "is_lecturer_or_admin P uid s = (b, s')"
  shows "pending_corrections s' = pending_corrections s"
    and "warning_messages s' = warning_messages s"
    and "rejoin_attempts s' = rejoin_attempts s"
    and "approved_rejoins s' = approved_rejoins s"
    and "member_name_tracker s' = member_name_tracker s"
    and "bot_messages_to_cleanup s' = bot_messages_to_cleanup s"
    and "active_invite_links s' = active_invite_links s"
    and "MODE s' = MODE s"
    and "job_queue s' = job_queue s"
  using assms
  by (auto simp: is_lecturer_or_admin_def get_chat_member_def split: if_splits option.splits prod.splits)

lemma notify_lecturers_frame [simp]:
  "rejoin_attempts (notify_lecturers P ids n s) = rejoin_attempts s"
  "approved_rejoins (notify_lecturers P ids n s) = approved_rejoins s"
  "member_name_tracker (notify_lecturers P ids n s) = member_name_tracker s"
  "pending_corrections (notify_lecturers P ids n s) = pending_corrections s"
  "active_invite_links (notify_lecturers P ids n s) = active_invite_links s"
  by (induction ids arbitrary: s) simp_all

lemma create_invite_link_frame:
  assumes "create_invite_link P now uid s = (r, s')"
  shows "rejoin_attempts s' = rejoin_attempts s"
    and "approved_rejoins s' = approved_rejoins s"
    and "member_name_tracker s' = member_name_tracker s"
    and "pending_corrections s' = pending_corrections s"
  using assms
  by (auto simp: create_invite_link_def create_chat_invite_link_def Let_def split: option.splits prod.splits if_splits)

lemma link_creation_failed_frame [simp]:
  "rejoin_attempts (snd (link_creation_failed P uid s)) = rejoin_attempts s"
  by (simp add: link_creation_failed_def Let_def reply_text_def send_message_def split: prod.splits option.splits)

lemma auto_approve_attempts:
  "rejoin_attempts (snd (auto_approve P now uid name s)) = rejoin_attempts (record_attempt uid now s)"
proof -
  obtain r s3 where c: "create_invite_link P now uid
      ((record_attempt uid now s)\<lparr>approved_rejoins := AList.update uid
                    \<lparr>approved_display_name = name, approval_time = now\<rparr> (approved_rejoins (record_attempt uid now s))\<rparr>) = (r, s3)"
    by (cases "create_invite_link P now uid
      ((record_attempt uid now s)\<lparr>approved_rejoins := AList.update uid
                    \<lparr>approved_display_name = name, approval_time = now\<rparr> (approved_rejoins (record_attempt uid now s))\<rparr>)")
  have "rejoin_attempts s3 = rejoin_attempts (record_attempt uid now s)"
    using create_invite_link_frame(1)[OF c] by simp
  then show ?thesis
    by (simp add: auto_approve_def Let_def c reply_text_def send_message_def split: prod.splits option.splits)
qed

lemma deny_rejoin_attempts:
  "rejoin_attempts (snd (deny_rejoin P now uid name s)) = rejoin_attempts (record_attempt uid now s)"
  by (simp add: deny_rejoin_def Let_def reply_text_def send_message_def split: prod.splits option.splits)


lemma record_attempt_map:
  "map_of (rejoin_attempts s) uid = Some d \<Longrightarrow>
   map_of (rejoin_attempts (record_attempt uid now s)) =
     (map_of (rejoin_attempts s))(uid \<mapsto> \<lparr>attempts = attempts d + 1, last_attempt = Some now\<rparr>)"
  by (simp add: record_attempt_def update_conv')

lemma rejoin_logic_attempts:
  "map_of (rejoin_attempts (snd (rejoin_logic P now uid name s))) =
     (if in_cooldown s uid now \<or> attempts_of s uid \<ge> REJOIN_ATTEMPTS_LIMIT
      then (if has_key (rejoin_attempts s) uid then map_of (rejoin_attempts s)
            else (map_of (rejoin_attempts s))(uid \<mapsto> \<lparr>attempts = 0, last_attempt = None\<rparr>))
      else (map_of (rejoin_attempts s))
             (uid \<mapsto> \<lparr>attempts = attempts_of s uid + 1, last_attempt = Some now\<rparr>))"
proof (cases "map_of (rejoin_attempts s) uid")
  case None
  then show ?thesis
    by (auto simp: rejoin_logic_def Let_def has_key_def in_cooldown_def attempts_of_def
        last_attempt_of_def auto_approve_attempts deny_rejoin_attempts record_attempt_map
        update_conv' REJOIN_ATTEMPTS_LIMIT_def reply_text_def send_message_def split: option.splits)
next
  case (Some d)
  then show ?thesis
    by (auto simp: rejoin_logic_def Let_def has_key_def in_cooldown_def attempts_of_def
        last_attempt_of_def auto_approve_attempts deny_rejoin_attempts record_attempt_map
        update_conv' reply_text_def send_message_def split: option.splits)
qed

lemma handle_private_message_attempts:
  "map_of (rejoin_attempts (snd (handle_private_message P now update s))) =
     (if exempt P s (id_of (effective_user update)) then map_of (rejoin_attempts s)
      else map_of (rejoin_attempts (snd (rejoin_logic P now (id_of (effective_user update))
              (full_name (effective_user update)) (snd (is_lecturer_or_admin P (id_of (effective_user update)) s))))))"
proof -
  obtain b s1 where e: "is_lecturer_or_admin P (id_of (effective_user update)) s = (b, s1)"
    by (cases "is_lecturer_or_admin P (id_of (effective_user update)) s")
  show ?thesis
    using is_lecturer_or_admin_frame(3)[OF e]
    by (cases b) (simp_all add: handle_private_message_def Let_def e exempt_def reply_text_def send_message_def split: option.splits)
qed


lemma handle_private_message_attempts_map:
  assumes "uid = id_of (effective_user update)"
  shows "map_of (rejoin_attempts (snd (handle_private_message P now update s))) =
     (if exempt P s uid then map_of (rejoin_attempts s)
      else if in_cooldown s uid now \<or> attempts_of s uid \<ge> REJOIN_ATTEMPTS_LIMIT
      then (if has_key (rejoin_attempts s) uid then map_of (rejoin_attempts s)
            else (map_of (rejoin_attempts s))(uid \<mapsto> \<lparr>attempts = 0, last_attempt = None\<rparr>))
      else (map_of (rejoin_attempts s))
             (uid \<mapsto> \<lparr>attempts = attempts_of s uid + 1, last_attempt = Some now\<rparr>))"
proof -
  obtain b s1 where e: "is_lecturer_or_admin P uid s = (b, s1)"
    by (cases "is_lecturer_or_admin P uid s")
  have fr: "rejoin_attempts s1 = rejoin_attempts s"
    using is_lecturer_or_admin_frame(3)[OF e] .
  have obs: "attempts_of s1 = attempts_of s" "in_cooldown s1 = in_cooldown s"
    by (simp_all add: attempts_of_def in_cooldown_def last_attempt_of_def fr fun_eq_iff)
  show ?thesis
    using assms e
    by (simp add: handle_private_message_attempts exempt_def rejoin_logic_attempts obs fr has_key_def)
qed

lemma logged_twice:
  "logged c (logged b s) = s\<lparr>calls := calls s @ [b, c]\<rparr>"
  by (simp add: logged_def)

lemma snd_reply_result:
  "snd (case reply_text P c n s of (None, s1) \<Rightarrow> (x, s1) | (Some m, s1) \<Rightarrow> (y, s1))
     = logged (Send_message c n) s"
  by (simp add: reply_text_def send_message_def split: option.splits)

lemma rejoin_request_rejected:
  assumes "uid = id_of (effective_user update)"
    and "\<not> exempt P s uid"
    and "s' = snd (handle_private_message P now update s)"
  shows "in_cooldown s uid now \<Longrightarrow>
           \<exists>t. last_attempt_of s uid = Some t \<and>
             s' = s\<lparr>calls := calls s @ [Get_chat_member uid, Send_message (Private uid)
                   (Cooldown_active ((seconds REJOIN_COOLDOWN - (now - t)) div seconds 60))]\<rparr>"
    and "\<not> in_cooldown s uid now \<Longrightarrow> attempts_of s uid \<ge> REJOIN_ATTEMPTS_LIMIT \<Longrightarrow>
           s' = s\<lparr>calls := calls s @ [Get_chat_member uid,
                   Send_message (Private uid) Maximum_attempts_reached]\<rparr>"
proof -
  have h: "s' = snd (rejoin_logic P now uid (full_name (effective_user update))
                   (logged (Get_chat_member uid) s))"
    unfolding assms(3) assms(1)
    by (simp add: handle_private_message_def Let_def
        is_lecturer_or_admin_False[OF assms(2), unfolded assms(1)])
  { assume c: "in_cooldown s uid now"
    then obtain t where t: "last_attempt_of s uid = Some t" "now - t < seconds REJOIN_COOLDOWN"
      by (auto simp: in_cooldown_def split: option.splits)
    then obtain d where d: "map_of (rejoin_attempts s) uid = Some d" "last_attempt d = Some t"
      by (auto simp: last_attempt_of_def split: option.splits)
    have "s' = s\<lparr>calls := calls s @ [Get_chat_member uid, Send_message (Private uid)
                   (Cooldown_active ((seconds REJOIN_COOLDOWN - (now - t)) div seconds 60))]\<rparr>"
      unfolding h
      by (simp add: rejoin_logic_def Let_def has_key_def d t(2) snd_reply_result logged_twice)
    then show "\<exists>t. last_attempt_of s uid = Some t \<and>
             s' = s\<lparr>calls := calls s @ [Get_chat_member uid, Send_message (Private uid)
                   (Cooldown_active ((seconds REJOIN_COOLDOWN - (now - t)) div seconds 60))]\<rparr>"
      using t(1) by blast }
  { assume c: "\<not> in_cooldown s uid now" and l: "attempts_of s uid \<ge> REJOIN_ATTEMPTS_LIMIT"
    obtain d where d: "map_of (rejoin_attempts s) uid = Some d" "REJOIN_ATTEMPTS_LIMIT \<le> attempts d"
      using l by (auto simp: attempts_of_def REJOIN_ATTEMPTS_LIMIT_def split: option.splits)
    have nc: "(case last_attempt d of Some t \<Rightarrow> now - t < seconds REJOIN_COOLDOWN | None \<Rightarrow> False) = False"
      using c d(1) by (simp add: in_cooldown_def last_attempt_of_def)
    show "s' = s\<lparr>calls := calls s @ [Get_chat_member uid,
                   Send_message (Private uid) Maximum_attempts_reached]\<rparr>"
      unfolding h
      by (simp add: rejoin_logic_def Let_def has_key_def d nc snd_reply_result logged_twice) }
qed

text \<open>
  C4. A private request changes only the sender's counter, and by exactly one when the
  sender is not exempt, is outside the cooldown window and is below the limit; then the
  time of the last attempt becomes the time of the request. A request of a non-exempt
  sender within the cooldown is rejected: the handler replies with the cooldown notice
  and nothing else in the state changes, so nothing is counted, approved or linked. A
  request outside the cooldown with the counter at the limit is rejected in the same way
  with the notice that the attempts are used up. Hence \<open>attempts \<le> REJOIN_ATTEMPTS_LIMIT\<close>
  for every user is preserved.
\<close>

theorem rejoin_attempt_counter:
  assumes "uid = id_of (effective_user update)"
    and "s' = snd (handle_private_message P now update s)"
  shows "attempts_of s' uid = attempts_of s uid +
           (if \<not> exempt P s uid \<and> \<not> in_cooldown s uid now \<and> attempts_of s uid < REJOIN_ATTEMPTS_LIMIT
            then 1 else 0)
         \<and> (in_cooldown s uid now \<or> attempts_of s uid \<ge> REJOIN_ATTEMPTS_LIMIT \<longrightarrow>
              last_attempt_of s' uid = last_attempt_of s uid)
         \<and> (\<forall>v. v \<noteq> uid \<longrightarrow> attempts_of s' v = attempts_of s v)
         \<and> ((\<forall>v. attempts_of s v \<le> REJOIN_ATTEMPTS_LIMIT) \<longrightarrow>
              (\<forall>v. attempts_of s' v \<le> REJOIN_ATTEMPTS_LIMIT))
         \<and> (\<not> exempt P s uid \<and> in_cooldown s uid now \<longrightarrow>
              (\<exists>t. last_attempt_of s uid = Some t \<and>
                 s' = s\<lparr>calls := calls s @ [Get_chat_member uid, Send_message (Private uid)
                   (Cooldown_active ((seconds REJOIN_COOLDOWN - (now - t)) div seconds 60))]\<rparr>))
         \<and> (\<not> exempt P s uid \<and> \<not> in_cooldown s uid now
               \<and> attempts_of s uid \<ge> REJOIN_ATTEMPTS_LIMIT \<longrightarrow>
              s' = s\<lparr>calls := calls s @ [Get_chat_member uid,
                      Send_message (Private uid) Maximum_attempts_reached]\<rparr>)
         \<and> (\<not> exempt P s uid \<and> \<not> in_cooldown s uid now
               \<and> attempts_of s uid < REJOIN_ATTEMPTS_LIMIT \<longrightarrow>
              last_attempt_of s' uid = Some now)"
proof -
  note m = handle_private_message_attempts_map[OF assms(1), of P now s, folded assms(2)]
  have a: "attempts_of s' uid = attempts_of s uid +
           (if \<not> exempt P s uid \<and> \<not> in_cooldown s uid now \<and> attempts_of s uid < REJOIN_ATTEMPTS_LIMIT
            then 1 else 0)"
    by (auto simp: attempts_of_def m has_key_def split: option.splits)
  have l: "in_cooldown s uid now \<or> attempts_of s uid \<ge> REJOIN_ATTEMPTS_LIMIT \<longrightarrow>
              last_attempt_of s' uid = last_attempt_of s uid"
    by (auto simp: last_attempt_of_def m has_key_def split: option.splits)
  have o: "\<And>v. v \<noteq> uid \<Longrightarrow> attempts_of s' v = attempts_of s v"
    by (auto simp: attempts_of_def m has_key_def split: option.splits)
  have i: "(\<forall>v. attempts_of s v \<le> REJOIN_ATTEMPTS_LIMIT) \<longrightarrow>
              (\<forall>v. attempts_of s' v \<le> REJOIN_ATTEMPTS_LIMIT)"
  proof (intro impI allI)
    fix v assume h: "\<forall>v. attempts_of s v \<le> REJOIN_ATTEMPTS_LIMIT"
    show "attempts_of s' v \<le> REJOIN_ATTEMPTS_LIMIT"
    proof (cases "v = uid")
      case True
      then show ?thesis using a h[rule_format, of uid] by (simp split: if_splits)
    next
      case False
      then show ?thesis using o h by simp
    qed
  qed
  have c: "\<not> exempt P s uid \<and> in_cooldown s uid now \<longrightarrow>
              (\<exists>t. last_attempt_of s uid = Some t \<and>
                 s' = s\<lparr>calls := calls s @ [Get_chat_member uid, Send_message (Private uid)
                   (Cooldown_active ((seconds REJOIN_COOLDOWN - (now - t)) div seconds 60))]\<rparr>)"
    using rejoin_request_rejected(1)[OF assms(1) _ assms(2)] by blast
  have x: "\<not> exempt P s uid \<and> \<not> in_cooldown s uid now
               \<and> attempts_of s uid \<ge> REJOIN_ATTEMPTS_LIMIT \<longrightarrow>
              s' = s\<lparr>calls := calls s @ [Get_chat_member uid,
                      Send_message (Private uid) Maximum_attempts_reached]\<rparr>"
    using rejoin_request_rejected(2)[OF assms(1) _ assms(2)] by blast
  have n: "\<not> exempt P s uid \<and> \<not> in_cooldown s uid now
               \<and> attempts_of s uid < REJOIN_ATTEMPTS_LIMIT \<longrightarrow>
              last_attempt_of s' uid = Some now"
    by (simp add: last_attempt_of_def m)
  show ?thesis using a l o i c x n by blast
qed

theorem rejoin_attempt_counter_witness:
  "attempts_of (snd (handle_private_message (platform_ok ''big mac'') 1000
       (private_message_from 42 ''big mac'') initial_state)) 42 = 1
   \<and> (\<forall>v. attempts_of (snd (handle_private_message (platform_ok ''big mac'') 1000
       (private_message_from 42 ''big mac'') initial_state)) v \<le> REJOIN_ATTEMPTS_LIMIT)
   \<and> snd (handle_private_message (platform_ok ''x'') 2000
       (private_message_from 42 ''Tope IFT 202311038308'') exhausted_state)
      = exhausted_state\<lparr>calls := [Get_chat_member 42,
           Send_message (Private 42) (Cooldown_active 29)]\<rparr>
   \<and> snd (handle_private_message (platform_ok ''x'') 2000000000
       (private_message_from 42 ''Tope IFT 202311038308'') exhausted_state)
      = exhausted_state\<lparr>calls := [Get_chat_member 42,
           Send_message (Private 42) Maximum_attempts_reached]\<rparr>"
proof -
  have u: "42 = id_of (effective_user (private_message_from 42 ''big mac''))"
    "42 = id_of (effective_user (private_message_from 42 ''Tope IFT 202311038308''))"
    by (simp_all add: private_message_from_def)
  have e: "\<not> exempt (platform_ok ''big mac'') initial_state 42"
    "\<not> exempt (platform_ok ''x'') exhausted_state 42"
    by code_simp+
  have c: "\<not> in_cooldown initial_state 42 1000" "in_cooldown exhausted_state 42 2000"
    "\<not> in_cooldown exhausted_state 42 2000000000"
    by code_simp+
  have z: "\<And>v. attempts_of initial_state v = 0"
    by (simp add: attempts_of_def initial_state_def)
  have l: "last_attempt_of exhausted_state 42 = Some 1000" "attempts_of exhausted_state 42 = 3"
    "calls exhausted_state = []"
    "(seconds REJOIN_COOLDOWN - (2000 - 1000)) div seconds 60 = 29"
    by code_simp+
  show ?thesis
    using rejoin_attempt_counter[OF u(1) refl, of "platform_ok ''big mac''" 1000 initial_state]
      rejoin_attempt_counter[OF u(2) refl, of "platform_ok ''x''" 2000 exhausted_state]
      rejoin_attempt_counter[OF u(2) refl, of "platform_ok ''x''" 2000000000 exhausted_state]
      e c z l
    by (simp add: REJOIN_ATTEMPTS_LIMIT_def)
qed

lemma calls_link_creation_failed:
  "set (calls s) \<subseteq> set (calls (snd (link_creation_failed P uid s)))"
  by (auto simp: link_creation_failed_def Let_def reply_text_def send_message_def split: option.splits)

lemma auto_approve_no_link:
  assumes "\<forall>n. on_create_chat_invite_link P n uid = None"
  shows "Send_message (Private uid) Error_creating_link_retry
           \<in> set (calls (snd (auto_approve P now uid name s)))"
proof -
  let ?s2 = "(record_attempt uid now s)\<lparr>approved_rejoins := AList.update uid
         \<lparr>approved_display_name = name, approval_time = now\<rparr>
         (approved_rejoins (record_attempt uid now s))\<rparr>"
  obtain s3 where c: "create_invite_link P now uid ?s2 = (None, s3)"
    using assms
    by (auto simp: create_invite_link_def create_chat_invite_link_def Let_def split: option.splits)
  show ?thesis
    using calls_link_creation_failed[of "logged (Send_message (Private uid) Error_creating_link_retry) s3" P uid]
    by (auto simp: auto_approve_def Let_def c reply_text_def send_message_def split: option.splits)
qed

text \<open>
  C9. A request of a non-exempt user that passes the cooldown and limit checks with a
  valid name, on a platform that creates no invite link: the user is told that the link
  could not be created, and the counter stays incremented with the request time as the
  time of the last attempt.
\<close>

theorem failed_link_consumes_attempt:
  assumes "uid = id_of (effective_user update)"
    and "s' = snd (handle_private_message P now update s)"
    and "\<not> exempt P s uid"
    and "\<not> in_cooldown s uid now"
    and "attempts_of s uid < REJOIN_ATTEMPTS_LIMIT"
    and "validate_name (MODE s) (full_name (effective_user update))"
    and "\<forall>n. on_create_chat_invite_link P n uid = None"
  shows "Send_message (Private uid) Error_creating_link_retry \<in> set (calls s')
         \<and> attempts_of s' uid = attempts_of s uid + 1
         \<and> last_attempt_of s' uid = Some now"
proof -
  note m = handle_private_message_attempts_map[OF assms(1), of P now s, folded assms(2)]
  have a: "attempts_of s' uid = attempts_of s uid + 1" "last_attempt_of s' uid = Some now"
    using assms(3-5) by (simp_all add: attempts_of_def last_attempt_of_def m)
  obtain s1 where e: "is_lecturer_or_admin P uid s = (False, s1)"
    using assms(3) by (cases "is_lecturer_or_admin P uid s") (simp add: exempt_def)
  have fr: "rejoin_attempts s1 = rejoin_attempts s" "MODE s1 = MODE s"
    using is_lecturer_or_admin_frame[OF e] by simp_all
  have obs: "attempts_of s1 = attempts_of s" "in_cooldown s1 = in_cooldown s"
    by (simp_all add: attempts_of_def in_cooldown_def last_attempt_of_def fr fun_eq_iff)
  let ?s = "if has_key (rejoin_attempts s1) uid then s1
            else s1\<lparr>rejoin_attempts := AList.update uid
                         \<lparr>attempts = 0, last_attempt = None\<rparr> (rejoin_attempts s1)\<rparr>"
  have "s' = snd (auto_approve P now uid (full_name (effective_user update)) ?s)"
    using assms(1,2,4,5,6) e fr
    by (auto simp: handle_private_message_def rejoin_logic_def Let_def obs[symmetric]
        in_cooldown_def last_attempt_of_def attempts_of_def has_key_def update_conv'
        REJOIN_ATTEMPTS_LIMIT_def split: option.splits)
  then show ?thesis using a auto_approve_no_link[OF assms(7)] by simp
qed

theorem failed_link_consumes_attempt_witness:
  "Send_message (Private 42) Error_creating_link_retry
     \<in> set (calls (snd (handle_private_message (platform_no_link ''Tope IFT 202311038308'') 1000
               (private_message_from 42 ''Tope IFT 202311038308'') initial_state)))
   \<and> attempts_of (snd (handle_private_message (platform_no_link ''Tope IFT 202311038308'') 1000
               (private_message_from 42 ''Tope IFT 202311038308'') initial_state)) 42 = 1
   \<and> last_attempt_of (snd (handle_private_message (platform_no_link ''Tope IFT 202311038308'') 1000
               (private_message_from 42 ''Tope IFT 202311038308'') initial_state)) 42 = Some 1000"
proof -
  have u: "42 = id_of (effective_user (private_message_from 42 ''Tope IFT 202311038308''))"
    by (simp add: private_message_from_def)
  have e: "\<not> exempt (platform_no_link ''Tope IFT 202311038308'') initial_state 42"
    by code_simp
  have c: "\<not> in_cooldown initial_state 42 1000"
    by code_simp
  have z: "attempts_of initial_state 42 < REJOIN_ATTEMPTS_LIMIT"
    by code_simp
  have v: "validate_name (MODE initial_state)
             (full_name (effective_user (private_message_from 42 ''Tope IFT 202311038308'')))"
    by code_simp
  have p: "\<forall>n. on_create_chat_invite_link (platform_no_link ''Tope IFT 202311038308'') n 42 = None"
    by (simp add: platform_no_link_def)
  have z0: "attempts_of initial_state 42 = 0"
    by code_simp
  show ?thesis
    using failed_link_consumes_attempt[OF u refl e c z v p] z0 by simp
qed

text \<open>
  C1. A request of the non-exempt user 42 with a valid name, on a platform that creates no
  invite link: \<^verbatim>\<open>create_invite_link\<close> catches the failure and returns \<^verbatim>\<open>None\<close>, the
  handler replies and returns, and the approved rejoin stored before the link was
  requested is still there, although no admission link exists for the user.
\<close>

theorem link_failure_leaves_approval:
  "map_of (approved_rejoins (snd (handle_private_message (platform_no_link ''Tope IFT 202311038308'')
       1000 (private_message_from 42 ''Tope IFT 202311038308'') initial_state))) 42
     = Some \<lparr>approved_display_name = ''Tope IFT 202311038308'', approval_time = 1000\<rparr>
   \<and> map_of (active_invite_links (snd (handle_private_message (platform_no_link ''Tope IFT 202311038308'')
       1000 (private_message_from 42 ''Tope IFT 202311038308'') initial_state))) 42 = None"
  by code_simp


section \<open>Properties of the name observation\<close>

text \<open>
  Observing a non-exempt, known identity under the name the registry already holds
  returns \<^verbatim>\<open>False\<close> (outcome Unchanged) whenever that name is valid or a pending
  correction exists for the identity. The only thing that happens is the query of the
  identity's admin status: the registry, the pending corrections, the warning messages
  and the job queue are as before, and nothing is sent.
\<close>

lemma observe_unchanged_valid_or_warned:
  assumes "\<not> exempt P s uid"
    and "map_of (member_name_tracker s) uid = Some name"
    and "validate_name (MODE s) name \<or> has_key (pending_corrections s) uid"
    and "s' = snd (detect_name_change P uid name s)"
  shows "detect_name_change P uid name s = (Return False, logged (Get_chat_member uid) s)
         \<and> member_name_tracker s' = member_name_tracker s
         \<and> pending_corrections s' = pending_corrections s
         \<and> warning_messages s' = warning_messages s
         \<and> job_queue s' = job_queue s
         \<and> new_calls s s' = [Get_chat_member uid]"
proof -
  have "detect_name_change P uid name s = (Return False, logged (Get_chat_member uid) s)"
    using assms(2,3)
    by (auto simp: detect_name_change_def is_lecturer_or_admin_False[OF assms(1)])
  then show ?thesis using assms(4) by simp
qed

text \<open>
  C6. When the unchanged name is invalid and no pending correction exists, the operation
  does not yield Unchanged: user 42, not exempt, known as \<open>big mac\<close> and not warned, is
  observed as \<open>big mac\<close>, and the observation ends with \<^verbatim>\<open>AttributeError\<close> instead of
  returning \<^verbatim>\<open>False\<close>. The registry and the pending corrections are as before and
  nothing is sent.
\<close>

theorem observe_unchanged_raises:
  "\<not> exempt (platform_ok ''big mac'') (initial_state\<lparr>member_name_tracker := [(42, ''big mac'')]\<rparr>) 42
   \<and> map_of (member_name_tracker (initial_state\<lparr>member_name_tracker := [(42, ''big mac'')]\<rparr>)) 42
        = Some ''big mac''
   \<and> detect_name_change (platform_ok ''big mac'') 42 ''big mac''
        (initial_state\<lparr>member_name_tracker := [(42, ''big mac'')]\<rparr>)
      = (Raise AttributeError,
         initial_state\<lparr>member_name_tracker := [(42, ''big mac'')],
                        calls := [Get_chat_member 42]\<rparr>)"
  by code_simp

lemma delete_warning_fields [simp]:
  "pending_corrections (delete_warning P m s) = pending_corrections s"
  "member_name_tracker (delete_warning P m s) = member_name_tracker s"
  "approved_rejoins (delete_warning P m s) = approved_rejoins s"
  "job_queue (delete_warning P m s) = job_queue s"
  "MODE (delete_warning P m s) = MODE s"
  "calls (delete_warning P m s) = calls s @ [Delete_message m]"
  by (simp_all add: delete_warning_def delete_message_def split: bool.splits)

lemma cancel_removal_jobs_fields [simp]:
  "pending_corrections (cancel_removal_jobs uid s) = pending_corrections s"
  "member_name_tracker (cancel_removal_jobs uid s) = member_name_tracker s"
  "calls (cancel_removal_jobs uid s) = calls s"
  "job_queue (cancel_removal_jobs uid s) =
     filter (\<lambda>(j, delay). j \<noteq> Remove_user_if_not_corrected uid) (job_queue s)"
  by (simp_all add: cancel_removal_jobs_def)

lemma schedule_message_deletion_fields [simp]:
  "pending_corrections (schedule_message_deletion m d s) = pending_corrections s"
  "member_name_tracker (schedule_message_deletion m d s) = member_name_tracker s"
  "approved_rejoins (schedule_message_deletion m d s) = approved_rejoins s"
  "active_invite_links (schedule_message_deletion m d s) = active_invite_links s"
  "warning_messages (schedule_message_deletion m d s) = warning_messages s"
  "calls (schedule_message_deletion m d s) = calls s"
  "job_queue (schedule_message_deletion m d s) = job_queue s @ [(Delete_specific_message m, d)]"
  by (simp_all add: schedule_message_deletion_def run_once_def)









section \<open>Properties of the deadline resolver\<close>

text \<open>
  C2. User 42 was warned as \<open>big mac\<close> and did not correct the name. The deadline
  resolver runs twice; the platform still reports the (banned) member with the invalid
  name on the second run. The first run removes the pending correction, and yet the second
  run bans again and sends a second removal notice: the ban branch does not look at the
  pending corrections.
\<close>

theorem double_removal:
  "count_list (calls (remove_user_if_not_corrected (platform_ok ''big mac'') 42
        (remove_user_if_not_corrected (platform_ok ''big mac'') 42 warned_state)))
      (Ban_chat_member 42) = 2
   \<and> length (filter is_removal_notice
        (calls (remove_user_if_not_corrected (platform_ok ''big mac'') 42
          (remove_user_if_not_corrected (platform_ok ''big mac'') 42 warned_state)))) = 2
   \<and> \<not> has_key (pending_corrections
          (remove_user_if_not_corrected (platform_ok ''big mac'') 42 warned_state)) 42"
  by code_simp


section \<open>Properties of the join handler\<close>

lemma mark_invite_link_used_fields [simp]:
  "approved_rejoins (mark_invite_link_used uid s) = approved_rejoins s"
  "pending_corrections (mark_invite_link_used uid s) = pending_corrections s"
  "calls (mark_invite_link_used uid s) = calls s"
  by (simp_all add: mark_invite_link_used_def split: option.splits)

lemma mark_invite_link_used_link:
  "map_of (active_invite_links s) uid = Some l \<Longrightarrow>
   map_of (active_invite_links (mark_invite_link_used uid s)) uid = Some (l\<lparr>used := True\<rparr>)"
  by (simp add: mark_invite_link_used_def update_conv')



















section \<open>Private requests and membership\<close>

lemma forget_logged: "logged c (forget_membership t p s) = forget_membership t p (logged c s)"
  by (simp add: logged_def forget_membership_def)

lemma forget_fields [simp]:
  "rejoin_attempts (forget_membership t p s) = rejoin_attempts s"
  "approved_rejoins (forget_membership t p s) = approved_rejoins s"
  "active_invite_links (forget_membership t p s) = active_invite_links s"
  "MODE (forget_membership t p s) = MODE s"
  "calls (forget_membership t p s) = calls s"
  "group_admins (forget_membership t p s) = group_admins s"
  by (simp_all add: forget_membership_def)

lemma forget_send_message:
  assumes "on_send_message P' = on_send_message P"
  shows "send_message P' c n (forget_membership t p s) = apsnd (forget_membership t p) (send_message P c n s)"
  by (simp add: send_message_def assms forget_logged)

lemma forget_notify_lecturers:
  assumes "on_send_message P' = on_send_message P"
  shows "notify_lecturers P' ids n (forget_membership t p s) = forget_membership t p (notify_lecturers P ids n s)"
  by (induction ids arbitrary: s) (simp_all add: forget_send_message[OF assms])

lemma forget_record_attempt:
  "record_attempt uid now (forget_membership t p s) = forget_membership t p (record_attempt uid now s)"
  by (simp add: record_attempt_def forget_membership_def split: option.splits)

lemma forget_link_creation_failed:
  assumes "on_send_message P' = on_send_message P"
  shows "link_creation_failed P' uid (forget_membership t p s) =
           apsnd (forget_membership t p) (link_creation_failed P uid s)"
proof -
  have "(forget_membership t p s)\<lparr>approved_rejoins := AList.delete uid (approved_rejoins s)\<rparr>
      = forget_membership t p (s\<lparr>approved_rejoins := AList.delete uid (approved_rejoins s)\<rparr>)"
    by (simp add: forget_membership_def)
  then show ?thesis
    by (simp add: link_creation_failed_def Let_def reply_text_def send_message_def assms
        forget_logged split: option.splits)
qed

lemma forget_create_invite_link:
  assumes "on_create_chat_invite_link P' = on_create_chat_invite_link P"
  shows "create_invite_link P' now uid (forget_membership t p s) =
           apsnd (forget_membership t p) (create_invite_link P now uid s)"
  by (simp add: create_invite_link_def create_chat_invite_link_def Let_def assms logged_def
      forget_membership_def split: option.splits)


lemma forget_auto_approve:
  assumes "on_send_message P' = on_send_message P"
    and "on_create_chat_invite_link P' = on_create_chat_invite_link P"
  shows "auto_approve P' now uid name (forget_membership t p s) =
           apsnd (forget_membership t p) (auto_approve P now uid name s)"
proof -
  let ?s2 = "(record_attempt uid now s)\<lparr>approved_rejoins := AList.update uid
         \<lparr>approved_display_name = name, approval_time = now\<rparr>
         (approved_rejoins (record_attempt uid now s))\<rparr>"
  have u: "(forget_membership t p (record_attempt uid now s))\<lparr>approved_rejoins := AList.update uid
         \<lparr>approved_display_name = name, approval_time = now\<rparr>
         (approved_rejoins (record_attempt uid now s))\<rparr> = forget_membership t p ?s2"
    by (simp add: forget_membership_def)
  obtain r s3 where c: "create_invite_link P now uid ?s2 = (r, s3)"
    by (cases "create_invite_link P now uid ?s2")
  have c': "create_invite_link P' now uid (forget_membership t p ?s2) = (r, forget_membership t p s3)"
    by (simp add: forget_create_invite_link[OF assms(2)] c)
  show ?thesis
    by (simp add: auto_approve_def Let_def forget_record_attempt u c c' reply_text_def
        send_message_def assms(1) forget_logged forget_link_creation_failed[OF assms(1)]
        forget_notify_lecturers[OF assms(1)] split: option.splits)
qed

lemma forget_deny_rejoin:
  assumes "on_send_message P' = on_send_message P"
  shows "deny_rejoin P' now uid name (forget_membership t p s) =
           apsnd (forget_membership t p) (deny_rejoin P now uid name s)"
  by (simp add: deny_rejoin_def Let_def forget_record_attempt reply_text_def send_message_def
      assms forget_logged split: option.splits)

lemma forget_rejoin_logic:
  assumes "on_send_message P' = on_send_message P"
    and "on_create_chat_invite_link P' = on_create_chat_invite_link P"
  shows "rejoin_logic P' now uid name (forget_membership t p s) =
           apsnd (forget_membership t p) (rejoin_logic P now uid name s)"
proof -
  have i: "(forget_membership t p s)\<lparr>rejoin_attempts := AList.update uid
       \<lparr>attempts = 0, last_attempt = None\<rparr> (rejoin_attempts s)\<rparr>
      = forget_membership t p (s\<lparr>rejoin_attempts := AList.update uid
       \<lparr>attempts = 0, last_attempt = None\<rparr> (rejoin_attempts s)\<rparr>)"
    by (simp add: forget_membership_def)
  show ?thesis
    by (simp add: rejoin_logic_def Let_def i forget_auto_approve[OF assms]
        forget_deny_rejoin[OF assms(1)] reply_text_def send_message_def assms(1) forget_logged
        split: option.splits)
qed

lemma private_request_independent:
  assumes "uid = id_of (effective_user update)"
    and "\<not> exempt P s uid" and "\<not> exempt P' s uid"
    and "on_send_message P' = on_send_message P"
    and "on_create_chat_invite_link P' = on_create_chat_invite_link P"
  shows "handle_private_message P' now update
              (s\<lparr>member_name_tracker := t, pending_corrections := p\<rparr>)
            = apsnd (\<lambda>s'. s'\<lparr>member_name_tracker := t, pending_corrections := p\<rparr>)
                (handle_private_message P now update s)"
proof -
  have e': "\<not> exempt P' (forget_membership t p s) uid"
    using assms(3)
    by (auto simp: exempt_def is_lecturer_or_admin_def get_chat_member_def
        split: if_splits option.splits)
  have a: "handle_private_message P now update s
            = rejoin_logic P now uid (full_name (effective_user update)) (logged (Get_chat_member uid) s)"
    unfolding assms(1)
    by (simp add: handle_private_message_def Let_def
        is_lecturer_or_admin_False[OF assms(2), unfolded assms(1)])
  have b: "handle_private_message P' now update (forget_membership t p s)
            = rejoin_logic P' now uid (full_name (effective_user update))
                (logged (Get_chat_member uid) (forget_membership t p s))"
    unfolding assms(1)
    by (simp add: handle_private_message_def Let_def
        is_lecturer_or_admin_False[OF e', unfolded assms(1)])
  have "handle_private_message P' now update (forget_membership t p s)
           = apsnd (forget_membership t p) (handle_private_message P now update s)"
    by (simp add: a b forget_logged forget_rejoin_logic[OF assms(4,5)])
  then show ?thesis
    by (simp add: forget_membership_def[abs_def])
qed

text \<open>
  C10. A private message that is no command goes to \<^verbatim>\<open>handle_private_message\<close>, and for
  a non-exempt sender it is processed as a rejoin request, in whatever state the member
  registry and the pending corrections are: within the cooldown it is rejected with the
  cooldown notice, outside the cooldown with the counter at the limit it is rejected with
  the notice that the attempts are used up (in both cases nothing else changes), and
  otherwise the counter goes up by one and the time of the last attempt becomes the time
  of the request. The contents of the member registry and of the pending corrections and
  the membership status the platform reports have no influence: with other contents
  \<open>t\<close> and \<open>p\<close> of the two stores, and on a platform \<open>P'\<close> that differs from \<open>P\<close>
  only in what it reports about chat members, the handler gives the same result and the
  same state, up to \<open>t\<close> and \<open>p\<close> themselves.
\<close>

theorem private_request_ignores_membership:
  assumes "uid = id_of (effective_user update)"
    and "\<not> exempt P s uid"
    and "chat_is_private u" and "bot_command u = None" and "\<not> has_new_chat_members u"
    and "s' = snd (handle_private_message P now update s)"
  shows "select_handler u = Some Handle_private_message
         \<and> attempts_of s' uid = attempts_of s uid +
             (if \<not> in_cooldown s uid now \<and> attempts_of s uid < REJOIN_ATTEMPTS_LIMIT then 1 else 0)
         \<and> (in_cooldown s uid now \<longrightarrow>
              (\<exists>t. last_attempt_of s uid = Some t \<and>
                 s' = s\<lparr>calls := calls s @ [Get_chat_member uid, Send_message (Private uid)
                   (Cooldown_active ((seconds REJOIN_COOLDOWN - (now - t)) div seconds 60))]\<rparr>))
         \<and> (\<not> in_cooldown s uid now \<and> attempts_of s uid \<ge> REJOIN_ATTEMPTS_LIMIT \<longrightarrow>
              s' = s\<lparr>calls := calls s @ [Get_chat_member uid,
                      Send_message (Private uid) Maximum_attempts_reached]\<rparr>)
         \<and> (\<not> in_cooldown s uid now \<and> attempts_of s uid < REJOIN_ATTEMPTS_LIMIT \<longrightarrow>
              last_attempt_of s' uid = Some now)
         \<and> (\<forall>P' t p. \<not> exempt P' s uid \<and> on_send_message P' = on_send_message P
                \<and> on_create_chat_invite_link P' = on_create_chat_invite_link P \<longrightarrow>
              handle_private_message P' now update
                  (s\<lparr>member_name_tracker := t, pending_corrections := p\<rparr>)
                = apsnd (\<lambda>s'. s'\<lparr>member_name_tracker := t, pending_corrections := p\<rparr>)
                    (handle_private_message P now update s))"
proof -
  note m = handle_private_message_attempts_map[OF assms(1), of P now s, folded assms(6)]
  have h: "select_handler u = Some Handle_private_message"
    using assms(3-5) by (simp add: select_handler_def)
  have a: "attempts_of s' uid = attempts_of s uid +
             (if \<not> in_cooldown s uid now \<and> attempts_of s uid < REJOIN_ATTEMPTS_LIMIT then 1 else 0)"
    using assms(2) by (auto simp: attempts_of_def m has_key_def split: option.splits)
  have c: "in_cooldown s uid now \<longrightarrow>
              (\<exists>t. last_attempt_of s uid = Some t \<and>
                 s' = s\<lparr>calls := calls s @ [Get_chat_member uid, Send_message (Private uid)
                   (Cooldown_active ((seconds REJOIN_COOLDOWN - (now - t)) div seconds 60))]\<rparr>)"
    using rejoin_request_rejected(1)[OF assms(1,2,6)] by blast
  have x: "\<not> in_cooldown s uid now \<and> attempts_of s uid \<ge> REJOIN_ATTEMPTS_LIMIT \<longrightarrow>
              s' = s\<lparr>calls := calls s @ [Get_chat_member uid,
                      Send_message (Private uid) Maximum_attempts_reached]\<rparr>"
    using rejoin_request_rejected(2)[OF assms(1,2,6)] by blast
  have n: "\<not> in_cooldown s uid now \<and> attempts_of s uid < REJOIN_ATTEMPTS_LIMIT \<longrightarrow>
              last_attempt_of s' uid = Some now"
    using assms(2) by (simp add: last_attempt_of_def m)
  have i: "\<forall>P' t p. \<not> exempt P' s uid \<and> on_send_message P' = on_send_message P
                \<and> on_create_chat_invite_link P' = on_create_chat_invite_link P \<longrightarrow>
              handle_private_message P' now update
                  (s\<lparr>member_name_tracker := t, pending_corrections := p\<rparr>)
                = apsnd (\<lambda>s'. s'\<lparr>member_name_tracker := t, pending_corrections := p\<rparr>)
                    (handle_private_message P now update s)"
    using private_request_independent[OF assms(1,2)] by blast
  show ?thesis using h a c x n i by blast
qed

theorem private_request_ignores_membership_witness:
  "select_handler \<lparr>chat_is_private = True, bot_command = None, has_new_chat_members = False,
                   has_text = True\<rparr> = Some Handle_private_message
   \<and> attempts_of (snd (handle_private_message (platform_ok ''big mac'') 1000
          (private_message_from 42 ''big mac'') warned_state)) 42 = 1
   \<and> last_attempt_of (snd (handle_private_message (platform_ok ''big mac'') 1000
          (private_message_from 42 ''big mac'') warned_state)) 42 = Some 1000
   \<and> handle_private_message (platform_kicked ''big mac'') 1000 (private_message_from 42 ''big mac'')
        (warned_state\<lparr>member_name_tracker := [], pending_corrections := []\<rparr>)
      = apsnd (\<lambda>s'. s'\<lparr>member_name_tracker := [], pending_corrections := []\<rparr>)
          (handle_private_message (platform_ok ''big mac'') 1000 (private_message_from 42 ''big mac'')
             warned_state)"
proof -
  have u: "42 = id_of (effective_user (private_message_from 42 ''big mac''))"
    by (simp add: private_message_from_def)
  have e: "\<not> exempt (platform_ok ''big mac'') warned_state 42" by code_simp
  have e': "\<not> exempt (platform_kicked ''big mac'') warned_state 42" by code_simp
  have s: "on_send_message (platform_kicked ''big mac'') = on_send_message (platform_ok ''big mac'')"
    by (simp add: platform_kicked_def)
  have c: "on_create_chat_invite_link (platform_kicked ''big mac'')
             = on_create_chat_invite_link (platform_ok ''big mac'')"
    by (simp add: platform_kicked_def)
  have k: "\<not> in_cooldown warned_state 42 1000" "attempts_of warned_state 42 = 0"
    by code_simp+
  have sh: "chat_is_private \<lparr>chat_is_private = True, bot_command = None,
               has_new_chat_members = False, has_text = True\<rparr>"
    "bot_command \<lparr>chat_is_private = True, bot_command = None,
               has_new_chat_members = False, has_text = True\<rparr> = None"
    "\<not> has_new_chat_members \<lparr>chat_is_private = True, bot_command = None,
               has_new_chat_members = False, has_text = True\<rparr>"
    by simp_all
  show ?thesis
    using private_request_ignores_membership[OF u e sh refl, of 1000] e' s c k
    by (simp add: REJOIN_ATTEMPTS_LIMIT_def)
qed

end
